theory Spec2Isabelle
  imports Complex_Main
begin

section \<open>Python values and exceptions\<close>

text \<open>
  The preprocessing code is Python over pandas data frames. A cell of a frame, and an
  argument of a helper, is a dynamically typed value: \<open>None\<close>/\<open>pd.NA\<close>, an integer, a
  binary64 float (finite, infinite or NaN), or a string. A finite float is represented by
  the rational number it denotes. An exception is the \<open>Inl\<close> branch of a sum.
\<close>

datatype py_error =
  AttributeError | TypeError | ValueError | OverflowError | IndexError | ZeroDivisionError

datatype pyfloat = Finite rat | PosInf | NegInf | NaN

datatype pyval = PyNone | PyInt int | PyFloat pyfloat | PyStr string

definition bind_err :: "py_error + 'a \<Rightarrow> ('a \<Rightarrow> py_error + 'b) \<Rightarrow> py_error + 'b" where
  "bind_err m f = (case m of Inl e \<Rightarrow> Inl e | Inr x \<Rightarrow> f x)"

section \<open>config.py\<close>

definition NOTE_NAMES :: "string list" where
  "NOTE_NAMES = [''C'', ''Db'', ''D'', ''Eb'', ''E'', ''F'', ''Gb'', ''G'', ''Ab'', ''A'', ''Bb'', ''B'']"

definition NOTE_NAMES_SHARP :: "string list" where
  "NOTE_NAMES_SHARP = [''C'', ''C#'', ''D'', ''D#'', ''E'', ''F'', ''F#'', ''G'', ''G#'', ''A'', ''A#'', ''B'']"

definition GRID_PER_BEAT :: int where
  "GRID_PER_BEAT = 12"

definition GRID_PER_BAR :: int where
  "GRID_PER_BAR = 48"

text \<open>A Python dict keeps insertion order; the quality table is an association list.\<close>

definition CHORD_QUALITY_MAP :: "(string \<times> string list) list" where
  "CHORD_QUALITY_MAP =
     [(''Maj'', [''j7'', ''6'', ''69'']),
      (''min'', [''-'', ''-7'', ''-6'']),
      (''dom'', [''7'', ''79b'', ''7913'']),
      (''half-dim'', [''m7b5''])]"

section \<open>Strings and lists of Python\<close>

text \<open>
  \<open>str.isspace\<close> on the code points below 256, and \<open>str.strip()\<close> without argument.
\<close>

definition isspace :: "char \<Rightarrow> bool" where
  "isspace c = (let n = (of_char c :: nat)
     in (9 \<le> n \<and> n \<le> 13) \<or> (28 \<le> n \<and> n \<le> 32) \<or> n = 133 \<or> n = 160)"

definition strip :: "string \<Rightarrow> string" where
  "strip s = rev (dropWhile isspace (rev (dropWhile isspace s)))"

text \<open>\<open>list.index\<close>: the first position of the element, \<open>ValueError\<close> when it is absent.\<close>

fun index_from :: "'a list \<Rightarrow> 'a \<Rightarrow> nat \<Rightarrow> py_error + nat" where
  "index_from [] x i = Inl ValueError"
| "index_from (y # ys) x i = (if y = x then Inr i else index_from ys x (Suc i))"

definition py_index :: "'a list \<Rightarrow> 'a \<Rightarrow> py_error + nat" where
  "py_index xs x = index_from xs x 0"

section \<open>chord\_parser.py\<close>

record parsed_chord =
  root_idx :: int
  quality_idx :: int

text \<open>\<open>ChordParser._is_valid_chord\<close>: a value of another type differs from both strings.\<close>

definition is_valid_chord :: "pyval \<Rightarrow> bool" where
  "is_valid_chord chord_symbol = (chord_symbol \<noteq> PyStr ''NC'' \<and> chord_symbol \<noteq> PyStr '''')"

text \<open>The split of the stripped symbol into the root token and the quality token.\<close>

definition split_chord :: "string \<Rightarrow> string \<times> string" where
  "split_chord chord_symbol =
     (if 2 \<le> length chord_symbol \<and> chord_symbol ! 1 \<in> set [CHR ''#'', CHR ''b'']
      then (take 2 chord_symbol, drop 2 chord_symbol)
      else (take 1 chord_symbol, drop 1 chord_symbol))"

text \<open>
  The root lookup. \<open>root_idx\<close> starts at 0; an exception inside the \<open>try\<close> is swallowed
  and leaves it there.
\<close>

definition root_lookup :: "string \<Rightarrow> int" where
  "root_lookup r =
     (if r \<in> set NOTE_NAMES then
        (case py_index NOTE_NAMES r of Inr i \<Rightarrow> int i | Inl e \<Rightarrow> 0)
      else if r \<in> set NOTE_NAMES_SHARP then
        (case py_index NOTE_NAMES_SHARP r of Inr i \<Rightarrow> int i | Inl e \<Rightarrow> 0)
      else 0)"

text \<open>
  The quality loop over \<open>enumerate(CHORD_QUALITY_MAP)\<close>: the first category whose suffix
  list holds the token wins and breaks the loop; \<open>quality_idx\<close> keeps its value otherwise.
\<close>

fun quality_loop :: "(nat \<times> string) list \<Rightarrow> string \<Rightarrow> int \<Rightarrow> int" where
  "quality_loop [] q cur = cur"
| "quality_loop ((idx, key) # rest) q cur =
     (case map_of CHORD_QUALITY_MAP key of
        None \<Rightarrow> cur
      | Some suffixes \<Rightarrow> if q \<in> set suffixes then int idx else quality_loop rest q cur)"

definition quality_lookup :: "string \<Rightarrow> int" where
  "quality_lookup q = quality_loop (enumerate 0 (map fst CHORD_QUALITY_MAP)) q 0"

text \<open>
  \<open>ChordParser.parse_chord\<close>. \<open>strip\<close> is a method of strings only: on any other value
  the attribute lookup raises, outside of both \<open>try\<close> blocks.
\<close>

definition parse_chord :: "pyval \<Rightarrow> py_error + parsed_chord option" where
  "parse_chord chord_symbol =
     (if \<not> is_valid_chord chord_symbol then Inr None
      else case chord_symbol of
        PyStr s \<Rightarrow>
          (let (r, q) = split_chord (strip s)
           in Inr (Some \<lparr>root_idx = root_lookup r, quality_idx = quality_lookup q\<rparr>))
      | _ \<Rightarrow> Inl AttributeError)"

text \<open>
  \<open>ChordParser.calculate_secondary_dominant\<close>. The target root comes from a nullable
  integer column; arithmetic on \<open>pd.NA\<close> gives \<open>pd.NA\<close>.
\<close>

definition calculate_secondary_dominant :: "int option \<Rightarrow> py_error + (int option \<times> int)" where
  "calculate_secondary_dominant target_root =
     bind_err (py_index (map fst CHORD_QUALITY_MAP) ''dom'')
       (\<lambda>quality_dom. Inr (map_option (\<lambda>r. (r + 7) mod 12) target_root, int quality_dom))"

section \<open>Floats and integers of Python\<close>

text \<open>
  Rounding of a rational number to the nearest binary64 value, ties to even: the
  exponent \<open>e\<close> of the binade of \<open>x\<close> (not below \<open>-1022\<close>, where the subnormal numbers
  start), the unit in the last place \<open>u = 2 ^ (e - 52)\<close>, and the nearest multiple
  \<open>m * u\<close> of it, where \<open>\<bar>m\<bar> \<le> 2 ^ 53\<close>. The result overflows when its magnitude
  reaches \<open>2 ^ 1024\<close>: when \<open>e\<close> is 1024 or more, or \<open>e\<close> is 1023 and the rounding
  carries to \<open>\<bar>m\<bar> = 2 ^ 53\<close>. The sign of a zero is not kept: no operation below
  divides by a zero or prints one.
\<close>

definition pow2 :: "int \<Rightarrow> rat" where
  "pow2 e = (if 0 \<le> e then 2 ^ nat e else 1 / 2 ^ nat (- e))"

text \<open>The number of binary digits of a positive integer (\<open>int.bit_length\<close>).\<close>

function bit_length :: "int \<Rightarrow> int" where
  "bit_length n = (if n \<le> 0 then 0 else 1 + bit_length (n div 2))"
  by pat_completeness auto
termination
  by (relation "measure nat") auto

text \<open>The binade of a positive rational \<open>x\<close>: the \<open>e\<close> with \<open>2 ^ e \<le> x < 2 ^ (e + 1)\<close>.\<close>

definition ilog2 :: "rat \<Rightarrow> int" where
  "ilog2 x = (let (p, q) = quotient_of x;
                  d = bit_length p - bit_length q
              in if pow2 d \<le> x then d else d - 1)"

definition round_half_even :: "rat \<Rightarrow> int" where
  "round_half_even x = (let f = \<lfloor>x\<rfloor>; d = x - of_int f
     in if d < 1 / 2 then f else if 1 / 2 < d then f + 1 else if even f then f else f + 1)"

definition fl64 :: "rat \<Rightarrow> pyfloat" where
  "fl64 x = (if x = 0 then Finite 0 else
     let e = max (ilog2 \<bar>x\<bar>) (- 1022);
         u = pow2 (e - 52);
         m = round_half_even (x / u)
     in if 1024 \<le> e \<or> (e = 1023 \<and> 2 ^ 53 \<le> \<bar>m\<bar>)
        then (if 0 < x then PosInf else NegInf)
        else Finite (of_int m * u))"

text \<open>Float multiplication and division (\<open>float.__mul__\<close>, \<open>float.__truediv__\<close>).\<close>

fun float_mul :: "pyfloat \<Rightarrow> pyfloat \<Rightarrow> pyfloat" where
  "float_mul NaN y = NaN"
| "float_mul x NaN = NaN"
| "float_mul (Finite a) (Finite b) = fl64 (a * b)"
| "float_mul (Finite a) PosInf = (if a = 0 then NaN else if 0 < a then PosInf else NegInf)"
| "float_mul (Finite a) NegInf = (if a = 0 then NaN else if 0 < a then NegInf else PosInf)"
| "float_mul PosInf (Finite b) = (if b = 0 then NaN else if 0 < b then PosInf else NegInf)"
| "float_mul NegInf (Finite b) = (if b = 0 then NaN else if 0 < b then NegInf else PosInf)"
| "float_mul PosInf PosInf = PosInf"
| "float_mul PosInf NegInf = NegInf"
| "float_mul NegInf PosInf = NegInf"
| "float_mul NegInf NegInf = PosInf"

fun float_div :: "pyfloat \<Rightarrow> pyfloat \<Rightarrow> py_error + pyfloat" where
  "float_div x (Finite b) =
     (if b = 0 then Inl ZeroDivisionError
      else case x of
        Finite a \<Rightarrow> Inr (fl64 (a / b))
      | PosInf \<Rightarrow> Inr (if 0 < b then PosInf else NegInf)
      | NegInf \<Rightarrow> Inr (if 0 < b then NegInf else PosInf)
      | NaN \<Rightarrow> Inr NaN)"
| "float_div (Finite a) PosInf = Inr (Finite 0)"
| "float_div (Finite a) NegInf = Inr (Finite 0)"
| "float_div x y = Inr NaN"

text \<open>
  \<open>int.__truediv__\<close>: the correctly rounded quotient of two integers, an error when it
  is too large for a float. The conversion of an integer operand that meets a float.
\<close>

definition int_truediv :: "int \<Rightarrow> int \<Rightarrow> py_error + pyfloat" where
  "int_truediv a b =
     (if b = 0 then Inl ZeroDivisionError
      else case fl64 (of_int a / of_int b) of
        Finite y \<Rightarrow> Inr (Finite y)
      | _ \<Rightarrow> Inl OverflowError)"

definition int_to_float :: "int \<Rightarrow> py_error + pyfloat" where
  "int_to_float a = (case fl64 (of_int a) of Finite y \<Rightarrow> Inr (Finite y) | _ \<Rightarrow> Inl OverflowError)"

text \<open>The operator \<open>/\<close> on two cell values.\<close>

fun py_truediv :: "pyval \<Rightarrow> pyval \<Rightarrow> py_error + pyfloat" where
  "py_truediv (PyInt a) (PyInt b) = int_truediv a b"
| "py_truediv (PyFloat x) (PyFloat y) = float_div x y"
| "py_truediv (PyInt a) (PyFloat y) = bind_err (int_to_float a) (\<lambda>x. float_div x y)"
| "py_truediv (PyFloat x) (PyInt b) = bind_err (int_to_float b) (\<lambda>y. float_div x y)"
| "py_truediv x y = Inl TypeError"

text \<open>\<open>round(x)\<close> of a float, without a number of digits.\<close>

fun py_round :: "pyfloat \<Rightarrow> py_error + int" where
  "py_round (Finite x) = Inr (round_half_even x)"
| "py_round PosInf = Inl OverflowError"
| "py_round NegInf = Inl OverflowError"
| "py_round NaN = Inl ValueError"

text \<open>
  The digits of \<open>int(s)\<close> of a string: decimal digits, where single underscores may
  separate digits.
\<close>

definition is_digit :: "char \<Rightarrow> bool" where
  "is_digit c = (let n = (of_char c :: nat) in 48 \<le> n \<and> n \<le> 57)"

definition digit_val :: "char \<Rightarrow> int" where
  "digit_val c = int (of_char c) - 48"

fun parse_digits :: "string \<Rightarrow> int \<Rightarrow> int option" where
  "parse_digits [] acc = None"
| "parse_digits [c] acc = (if is_digit c then Some (acc * 10 + digit_val c) else None)"
| "parse_digits (c # d # ds) acc =
     (if \<not> is_digit c then None
      else if d = CHR ''_'' then parse_digits ds (acc * 10 + digit_val c)
      else parse_digits (d # ds) (acc * 10 + digit_val c))"

text \<open>
  \<open>int\<close> of a string skips the whitespace of C's \<open>isspace\<close> and the non-ASCII
  whitespace at both ends (the separators U+001C to U+001F are not skipped, unlike in
  \<open>str.strip\<close>), and refuses more than 4300 digits, CPython's default limit.
\<close>

definition int_isspace :: "char \<Rightarrow> bool" where
  "int_isspace c = (let n = (of_char c :: nat)
     in (9 \<le> n \<and> n \<le> 13) \<or> n = 32 \<or> n = 133 \<or> n = 160)"

definition int_of_str :: "string \<Rightarrow> py_error + int" where
  "int_of_str s =
     (let t = rev (dropWhile int_isspace (rev (dropWhile int_isspace s)));
          r = (case t of
                 [] \<Rightarrow> None
               | c # cs \<Rightarrow>
                   if c = CHR ''-'' then map_option uminus (parse_digits cs 0)
                   else if c = CHR ''+'' then parse_digits cs 0
                   else parse_digits t 0)
      in if 4300 < length (filter is_digit t) then Inl ValueError
         else case r of None \<Rightarrow> Inl ValueError | Some n \<Rightarrow> Inr n)"

text \<open>\<open>int(value)\<close>: a float is truncated towards zero.\<close>

fun py_int :: "pyval \<Rightarrow> py_error + int" where
  "py_int PyNone = Inl TypeError"
| "py_int (PyInt n) = Inr n"
| "py_int (PyFloat (Finite x)) = Inr (if 0 \<le> x then \<lfloor>x\<rfloor> else \<lceil>x\<rceil>)"
| "py_int (PyFloat PosInf) = Inl OverflowError"
| "py_int (PyFloat NegInf) = Inl OverflowError"
| "py_int (PyFloat NaN) = Inl ValueError"
| "py_int (PyStr s) = int_of_str s"

text \<open>\<open>pd.isna\<close> of a scalar, and the comparison \<open>value == 0\<close>.\<close>

definition isna :: "pyval \<Rightarrow> bool" where
  "isna v = (v = PyNone \<or> v = PyFloat NaN)"

definition eq_zero :: "pyval \<Rightarrow> bool" where
  "eq_zero v = (v = PyInt 0 \<or> v = PyFloat (Finite 0))"

section \<open>utils.py\<close>

text \<open>
  \<open>safe_int\<close>: the \<open>except\<close> clause names \<open>ValueError\<close> and \<open>TypeError\<close>; any other
  exception of the conversion leaves the function.
\<close>

definition safe_int :: "pyval \<Rightarrow> int \<Rightarrow> py_error + int" where
  "safe_int v dflt =
     (if isna v then Inr dflt
      else case py_int v of
        Inr n \<Rightarrow> Inr n
      | Inl e \<Rightarrow> if e = ValueError \<or> e = TypeError then Inr dflt else Inl e)"

definition safe_divide :: "pyval \<Rightarrow> pyval \<Rightarrow> pyfloat \<Rightarrow> py_error + pyfloat" where
  "safe_divide numerator denominator dflt =
     (if eq_zero denominator \<or> isna numerator \<or> isna denominator then Inr dflt
      else py_truediv numerator denominator)"

definition clip_to_range :: "int \<Rightarrow> int \<Rightarrow> int \<Rightarrow> int" where
  "clip_to_range v min_val max_val = max min_val (min max_val v)"

section \<open>Rhythmic grid (preprocess.py)\<close>

text \<open>\<open>Preprocessor._calculate_position_grid\<close>.\<close>

definition calculate_position_grid :: "pyval \<Rightarrow> pyval \<Rightarrow> pyval \<Rightarrow> py_error + int" where
  "calculate_position_grid beat_v tatum_v division_v =
     bind_err (safe_int beat_v 1) (\<lambda>b.
     bind_err (safe_int tatum_v 1) (\<lambda>t.
     bind_err (safe_int division_v 1) (\<lambda>d0.
       let d = (if d0 = 0 then 1 else d0)
       in bind_err (int_truediv (t - 1) d) (\<lambda>q.
          bind_err (py_round (float_mul q (Finite (of_int GRID_PER_BEAT)))) (\<lambda>r.
            Inr (clip_to_range ((b - 1) * GRID_PER_BEAT + r) 0 (GRID_PER_BAR - 1)))))))"

text \<open>\<open>Preprocessor._calculate_duration_grid\<close>.\<close>

definition calculate_duration_grid :: "pyval \<Rightarrow> pyval \<Rightarrow> py_error + int" where
  "calculate_duration_grid duration_sec beatdur_sec =
     (if isna duration_sec \<or> isna beatdur_sec \<or> eq_zero beatdur_sec then Inr 1
      else bind_err (safe_divide duration_sec beatdur_sec (Finite 1)) (\<lambda>ratio.
           bind_err (py_round (float_mul ratio (Finite (of_int GRID_PER_BEAT)))) (\<lambda>g.
             Inr (clip_to_range g 1 GRID_PER_BAR))))"

section \<open>The tables of a solo\<close>

text \<open>
  A data frame is the list of its rows in index order; the index is the default range
  index, so the label of a row is its position. The columns are typed as the database
  declares them: text, integers, floats (\<open>NaN\<close> when missing). A nullable integer cell is an
  \<open>int option\<close>, \<open>None\<close> standing for \<open>pd.NA\<close> and, in a float column of whole numbers,
  for \<open>NaN\<close>. \<open>pitch\<close> is a MIDI note number. A column that a later stage adds is a
  field that holds \<open>None\<close> until then.
\<close>

record beat_event =
  beatid :: int
  melid :: int
  bar :: int
  beat :: int
  chord :: string
  signature :: string
  chorus_id :: int

record melody_event =
  m_eventid :: int
  m_pitch :: "int option"
  m_onset :: pyfloat
  m_duration :: pyfloat
  m_bar :: int
  m_beat :: int
  m_tatum :: int
  m_division :: int
  m_beatdur :: pyfloat

record solo_info =
  info_key :: string
  info_avgtempo :: pyfloat
  info_performer :: string
  info_style :: string
  info_title :: string

record solo_data =
  melody :: "melody_event list"
  beats :: "beat_event list"
  solo_infos :: "solo_info list"

text \<open>
  The row of the working frame: the beat columns, then the columns that the final
  selection keeps, then the three melody columns that it drops.
\<close>

record feature_row = beat_event +
  eventid :: "int option"
  pitch :: "int option"
  onset :: pyfloat
  duration :: pyfloat
  key :: string
  avgtempo :: pyfloat
  performer :: string
  style :: string
  title :: string
  chord_root :: "int option"
  chord_quality :: "int option"
  next_chord :: "string option"
  next_chord_root :: "int option"
  next_chord_quality :: "int option"
  pos_grid :: "int option"
  dur_grid :: "int option"
  prev_interval :: "int option"
  key_center :: "int option"
  key_shift :: "int option"
  chord_rel_pitch :: "int option"

record row = feature_row +
  tatum :: "int option"
  division :: "int option"
  beatdur :: pyfloat

text \<open>A function applied to every row of a frame; the first exception leaves the loop.\<close>

fun map_err :: "('a \<Rightarrow> py_error + 'b) \<Rightarrow> 'a list \<Rightarrow> py_error + 'b list" where
  "map_err f [] = Inr []"
| "map_err f (x # xs) =
     bind_err (f x) (\<lambda>y. bind_err (map_err f xs) (\<lambda>ys. Inr (y # ys)))"

text \<open>\<open>xs[i]\<close> of a Python list: a negative index counts from the end.\<close>

definition py_getitem :: "'a list \<Rightarrow> int \<Rightarrow> py_error + 'a" where
  "py_getitem xs i =
     (if 0 \<le> i \<and> i < int (length xs) then Inr (xs ! nat i)
      else if i < 0 \<and> - int (length xs) \<le> i then Inr (xs ! nat (int (length xs) + i))
      else Inl IndexError)"

section \<open>Flattening (preprocess.py)\<close>

text \<open>
  \<open>DataFrame.merge(..., on=['bar', 'beat'], how='left')\<close>: every left row in order, once
  for each right row with the same key, in the order of the right frame, and once with
  missing values when no right row has the key.
\<close>

definition merge_left ::
    "beat_event list \<Rightarrow> melody_event list \<Rightarrow> (beat_event \<times> melody_event option) list" where
  "merge_left bs ms =
     concat (map (\<lambda>b.
       case filter (\<lambda>m. m_bar m = bar b \<and> m_beat m = beat b) ms of
         [] \<Rightarrow> [(b, None)]
       | m # rest \<Rightarrow> map (\<lambda>m'. (b, Some m')) (m # rest)) bs)"

definition make_row :: "solo_info \<Rightarrow> int \<Rightarrow> beat_event \<times> melody_event option \<Rightarrow> row" where
  "make_row info mid bm = (case bm of (b, mo) \<Rightarrow>
     \<lparr>beatid = beatid b, melid = mid, bar = bar b, beat = beat b, chord = chord b,
      signature = signature b, chorus_id = chorus_id b,
      eventid = map_option m_eventid mo,
      pitch = (case mo of None \<Rightarrow> None | Some m \<Rightarrow> m_pitch m),
      onset = (case mo of None \<Rightarrow> NaN | Some m \<Rightarrow> m_onset m),
      duration = (case mo of None \<Rightarrow> NaN | Some m \<Rightarrow> m_duration m),
      key = info_key info, avgtempo = info_avgtempo info, performer = info_performer info,
      style = info_style info, title = info_title info,
      chord_root = None, chord_quality = None,
      next_chord = None, next_chord_root = None, next_chord_quality = None,
      pos_grid = None, dur_grid = None, prev_interval = None,
      key_center = None, key_shift = None, chord_rel_pitch = None,
      tatum = map_option m_tatum mo, division = map_option m_division mo,
      beatdur = (case mo of None \<Rightarrow> NaN | Some m \<Rightarrow> m_beatdur m)\<rparr>)"

text \<open>
  \<open>Preprocessor._load_and_flatten_solo\<close>, on the three tables that the database returns
  for the solo. \<open>solo_info[col].iloc[0]\<close> raises on an empty table.
\<close>

definition load_and_flatten_solo :: "solo_data \<Rightarrow> int \<Rightarrow> py_error + row list" where
  "load_and_flatten_solo sd mid =
     (let df = merge_left (beats sd) (melody sd)
      in case solo_infos sd of
           [] \<Rightarrow> Inl IndexError
         | info # rest \<Rightarrow> Inr (map (make_row info mid) df))"

section \<open>Chord alignment (preprocess.py)\<close>

definition set_parsed :: "row \<Rightarrow> parsed_chord option \<Rightarrow> row" where
  "set_parsed r p = r\<lparr>chord_root := map_option root_idx p, chord_quality := map_option quality_idx p\<rparr>"

text \<open>
  One pass of the forward loop. The row \<open>r\<close> comes from \<open>iterrows\<close>, a snapshot of the
  frame before the loop; the three assignments read and write the frame itself.
\<close>

definition align_step :: "nat \<times> row \<Rightarrow> nat \<times> row list \<Rightarrow> nat \<times> row list" where
  "align_step ir st = (case ir of (idx, r) \<Rightarrow> case st of (idx_last_chord, df) \<Rightarrow>
     let idx_last = (if chord r \<noteq> [] then idx else idx_last_chord);
         df1 = df[idx := (df ! idx)\<lparr>chord := chord (df ! idx_last)\<rparr>];
         df2 = df1[idx := (df1 ! idx)\<lparr>chord_root := chord_root (df1 ! idx_last)\<rparr>];
         df3 = df2[idx := (df2 ! idx)\<lparr>chord_quality := chord_quality (df2 ! idx_last)\<rparr>]
     in (idx_last, df3))"

text \<open>One pass of the backward loop over \<open>solo_df.iloc[::-1].iterrows()\<close>.\<close>

definition lookahead_step ::
    "nat \<times> row \<Rightarrow> string \<times> nat \<times> row list \<Rightarrow> string \<times> nat \<times> row list" where
  "lookahead_step ir st = (case ir of (idx, r) \<Rightarrow> case st of (cur_chord, idx_next_chord, df) \<Rightarrow>
     let idx_next = (if chord r \<noteq> cur_chord then idx + 1 else idx_next_chord);
         cur = (if chord r \<noteq> cur_chord then chord r else cur_chord);
         df1 = df[idx := (df ! idx)\<lparr>next_chord := Some (chord (df ! idx_next))\<rparr>];
         df2 = df1[idx := (df1 ! idx)\<lparr>next_chord_root := chord_root (df1 ! idx_next)\<rparr>];
         df3 = df2[idx := (df2 ! idx)\<lparr>next_chord_quality := chord_quality (df2 ! idx_next)\<rparr>]
     in (cur, idx_next, df3))"

text \<open>
  \<open>Preprocessor._align_chords\<close>. \<open>solo_df.iloc[-1]\<close> raises on an empty frame.
\<close>

definition align_chords :: "row list \<Rightarrow> py_error + row list" where
  "align_chords solo_df =
     bind_err (map_err (\<lambda>r. parse_chord (PyStr (chord r))) solo_df) (\<lambda>parsed_chords.
       let df0 = map (\<lambda>(r, p). set_parsed r p) (zip solo_df parsed_chords);
           df1 = snd (fold align_step (enumerate 0 df0) (0, df0))
       in if df1 = [] then Inl IndexError
          else Inr (snd (snd (fold lookahead_step (rev (enumerate 0 df1))
                      (chord (last df1), length df1 - 1, df1)))))"

section \<open>Pickup fill (preprocess.py)\<close>

text \<open>
  The mask of the rows whose chord is neither \<open>NC\<close> nor empty, and the smallest label
  that it selects. On an empty
  selection \<open>Index.min()\<close> is \<open>NaN\<close>, here \<open>None\<close>: it is not the object \<open>None\<close> of the
  test that follows in the source, and the comparison \<open>NaN > 0\<close> is false.
\<close>

definition is_real_chord :: "string \<Rightarrow> bool" where
  "is_real_chord c = (c \<noteq> ''NC'' \<and> c \<noteq> [])"

fun first_valid_from :: "row list \<Rightarrow> nat \<Rightarrow> nat option" where
  "first_valid_from [] i = None"
| "first_valid_from (r # rs) i =
     (if is_real_chord (chord r) then Some i else first_valid_from rs (Suc i))"

definition first_valid_idx :: "row list \<Rightarrow> nat option" where
  "first_valid_idx solo_df = first_valid_from solo_df 0"

text \<open>
  The loop over \<open>range(first_valid_idx)\<close>. Indexing \<open>NOTE_NAMES\<close> with \<open>pd.NA\<close> raises.
\<close>

fun fill_loop :: "nat list \<Rightarrow> int option \<Rightarrow> int \<Rightarrow> row list \<Rightarrow> py_error + row list" where
  "fill_loop [] dominant_root dominant_quality df = Inr df"
| "fill_loop (idx # rest) dominant_root dominant_quality df =
     (let df1 = df[idx := (df ! idx)\<lparr>chord_root := dominant_root\<rparr>];
          df2 = df1[idx := (df1 ! idx)\<lparr>chord_quality := Some dominant_quality\<rparr>]
      in case dominant_root of
           None \<Rightarrow> Inl TypeError
         | Some d \<Rightarrow>
             bind_err (py_getitem NOTE_NAMES d) (\<lambda>name.
               fill_loop rest dominant_root dominant_quality
                 (df2[idx := (df2 ! idx)\<lparr>chord := name @ ''7''\<rparr>])))"

text \<open>\<open>Preprocessor._fill_pickup_measures\<close>.\<close>

definition fill_pickup_measures :: "row list \<Rightarrow> py_error + row list" where
  "fill_pickup_measures solo_df =
     (case first_valid_idx solo_df of
        None \<Rightarrow> Inr solo_df
      | Some k \<Rightarrow>
          if 0 < k then
            bind_err (calculate_secondary_dominant (chord_root (solo_df ! k)))
              (\<lambda>(dominant_root, dominant_quality).
                 fill_loop [0..<k] dominant_root dominant_quality solo_df)
          else Inr solo_df)"

section \<open>Derived features (preprocess.py)\<close>

text \<open>
  The cell of a whole-number column that the left join may have turned into floats.
\<close>

definition int_cell :: "int option \<Rightarrow> pyval" where
  "int_cell c = (case c of None \<Rightarrow> PyFloat NaN | Some n \<Rightarrow> PyInt n)"

text \<open>\<open>Preprocessor._add_rhythmic_features\<close>.\<close>

definition add_rhythmic_features :: "row list \<Rightarrow> py_error + row list" where
  "add_rhythmic_features solo_df =
     bind_err (map_err (\<lambda>r. calculate_position_grid
                  (PyInt (beat r)) (int_cell (tatum r)) (int_cell (division r))) solo_df) (\<lambda>ps.
     bind_err (map_err (\<lambda>r. calculate_duration_grid
                  (PyFloat (duration r)) (PyFloat (beatdur r))) solo_df) (\<lambda>ds.
       Inr (map (\<lambda>(r, p, d). r\<lparr>pos_grid := Some p, dur_grid := Some d\<rparr>)
              (zip solo_df (zip ps ds)))))"

text \<open>
  \<open>Preprocessor._add_melodic_features\<close>: \<open>pitch.diff().fillna(0).astype(int)\<close>.
\<close>

definition pitch_diff :: "int option list \<Rightarrow> int option list" where
  "pitch_diff ps =
     (case ps of
        [] \<Rightarrow> []
      | p # rest \<Rightarrow>
          None # map (\<lambda>(a, b). case (a, b) of (Some x, Some y) \<Rightarrow> Some (y - x) | _ \<Rightarrow> None)
                   (zip ps rest))"

definition add_melodic_features :: "row list \<Rightarrow> row list" where
  "add_melodic_features solo_df =
     map (\<lambda>(r, d). r\<lparr>prev_interval := Some (case d of None \<Rightarrow> 0 | Some v \<Rightarrow> v)\<rparr>)
       (zip solo_df (pitch_diff (map pitch solo_df)))"

text \<open>
  The chord-relative pitch of one row. With a resolved chord root and a missing pitch
  the difference and its remainder are \<open>NaN\<close>, which the type conversion of the last
  stage turns into \<open>pd.NA\<close>.
\<close>

definition rel_pitch :: "int option \<Rightarrow> int option \<Rightarrow> int option" where
  "rel_pitch p cr =
     (case cr of
        None \<Rightarrow> Some 0
      | Some c \<Rightarrow> (case p of None \<Rightarrow> None | Some x \<Rightarrow> Some ((x - c) mod 12)))"

text \<open>\<open>Preprocessor._add_harmonic_features\<close>.\<close>

definition add_harmonic_features :: "row list \<Rightarrow> py_error + row list" where
  "add_harmonic_features solo_df =
     (let key_value = (case solo_df of [] \<Rightarrow> ''C'' | r # rest \<Rightarrow> key r)
      in bind_err (parse_chord (PyStr key_value)) (\<lambda>parsed_key.
           let kc = (case parsed_key of None \<Rightarrow> 0 | Some p \<Rightarrow> root_idx p)
           in Inr (map (\<lambda>r. r\<lparr>key_center := Some kc, key_shift := Some 0,
                                 chord_rel_pitch := rel_pitch (pitch r) (chord_root r)\<rparr>)
                    solo_df)))"

text \<open>
  \<open>Preprocessor._select_final_features\<close> keeps the feature columns and drops \<open>tatum\<close>,
  \<open>division\<close> and \<open>beatdur\<close>. \<open>Preprocessor._convert_dtypes\<close> casts every column to the
  type that its field already has here.
\<close>

definition select_final_features :: "row list \<Rightarrow> feature_row list" where
  "select_final_features solo_df = map feature_row.truncate solo_df"

definition convert_dtypes :: "feature_row list \<Rightarrow> feature_row list" where
  "convert_dtypes solo_df = solo_df"

text \<open>\<open>Preprocessor._process_single_solo\<close>.\<close>

definition process_single_solo :: "solo_data \<Rightarrow> int \<Rightarrow> py_error + feature_row list" where
  "process_single_solo sd mid =
     bind_err (load_and_flatten_solo sd mid) (\<lambda>df1.
     bind_err (align_chords df1) (\<lambda>df2.
     bind_err (fill_pickup_measures df2) (\<lambda>df3.
     bind_err (add_rhythmic_features df3) (\<lambda>df4.
     bind_err (add_harmonic_features (add_melodic_features df4)) (\<lambda>df5.
       Inr (convert_dtypes (select_final_features df5)))))))"

section \<open>Functions for stating the alignment\<close>

text \<open>
  The row that the forward loop points at once it has passed the first \<open>n\<close> rows of a
  frame: the last of them with a non-empty chord, or row 0 when there is none. A row
  that takes its three chord fields from another row, and a row that takes its lookahead
  fields from another row.
\<close>

fun last_stated :: "row list \<Rightarrow> nat \<Rightarrow> nat" where
  "last_stated df 0 = 0"
| "last_stated df (Suc n) = (if chord (df ! n) \<noteq> [] then n else last_stated df n)"

definition inherit_chord :: "row \<Rightarrow> row \<Rightarrow> row" where
  "inherit_chord r src =
     r\<lparr>chord := chord src, chord_root := chord_root src, chord_quality := chord_quality src\<rparr>"

definition set_next :: "row \<Rightarrow> row \<Rightarrow> row" where
  "set_next r src =
     r\<lparr>next_chord := Some (chord src), next_chord_root := chord_root src,
       next_chord_quality := chord_quality src\<rparr>"

text \<open>
  The chord and the row that the backward loop tracks once it has passed the last \<open>m\<close>
  rows of a frame.
\<close>

fun next_state :: "row list \<Rightarrow> nat \<Rightarrow> string \<times> nat" where
  "next_state df 0 = (chord (last df), length df - 1)"
| "next_state df (Suc m) =
     (case next_state df m of (cur, nx) \<Rightarrow>
        if chord (df ! (length df - Suc m)) \<noteq> cur
        then (chord (df ! (length df - Suc m)), length df - Suc m + 1)
        else (cur, nx))"

text \<open>
  The frame after the forward loop and the frame after the backward loop, row by row.
\<close>

definition forward_frame :: "row list \<Rightarrow> row list" where
  "forward_frame df =
     map (\<lambda>i. inherit_chord (df ! i) (df ! last_stated df (Suc i))) [0..<length df]"

definition lookahead_frame :: "row list \<Rightarrow> row list" where
  "lookahead_frame df =
     map (\<lambda>i. set_next (df ! i) (df ! snd (next_state df (length df - i)))) [0..<length df]"

section \<open>A small solo\<close>

text \<open>
  Three beats of one bar: no chord stated on the first, \<open>C7\<close> on the second, none on
  the third; one note, on the second beat.
\<close>

definition example_beats :: "beat_event list" where
  "example_beats =
     [\<lparr>beatid = 1, melid = 7, bar = 1, beat = 1, chord = [], signature = ''4/4'', chorus_id = 1\<rparr>,
      \<lparr>beatid = 2, melid = 7, bar = 1, beat = 2, chord = ''C7'', signature = ''4/4'', chorus_id = 1\<rparr>,
      \<lparr>beatid = 3, melid = 7, bar = 1, beat = 3, chord = [], signature = ''4/4'', chorus_id = 1\<rparr>]"

definition example_melody :: "melody_event list" where
  "example_melody =
     [\<lparr>m_eventid = 10, m_pitch = Some 64, m_onset = Finite 1, m_duration = Finite (1 / 4),
       m_bar = 1, m_beat = 2, m_tatum = 3, m_division = 4, m_beatdur = Finite (1 / 2)\<rparr>]"

definition example_solo :: solo_data where
  "example_solo =
     \<lparr>melody = example_melody, beats = example_beats,
      solo_infos = [\<lparr>info_key = ''Bb-maj'', info_avgtempo = Finite 120,
                     info_performer = ''P'', info_style = ''BEBOP'', info_title = ''T''\<rparr>]\<rparr>"

text \<open>The frame of the small solo after flattening, and after the chord alignment.\<close>

definition example_flat :: "row list" where
  "example_flat = (case load_and_flatten_solo example_solo 7 of Inr df \<Rightarrow> df | Inl e \<Rightarrow> [])"

definition example_aligned :: "row list" where
  "example_aligned = (case align_chords example_flat of Inr df \<Rightarrow> df | Inl e \<Rightarrow> [])"

text \<open>
  The pairs the chord tables document: every note name of the flat-spelled and the
  sharp-spelled table with its pitch class, and every literal suffix with the index of its
  quality (0 Major, 1 minor, 2 dominant, 3 half-diminished).
\<close>

definition documented_roots :: "(string \<times> int) list" where
  "documented_roots =
     [(''C'', 0), (''Db'', 1), (''D'', 2), (''Eb'', 3), (''E'', 4), (''F'', 5), (''Gb'', 6),
      (''G'', 7), (''Ab'', 8), (''A'', 9), (''Bb'', 10), (''B'', 11),
      (''C#'', 1), (''D#'', 3), (''F#'', 6), (''G#'', 8), (''A#'', 10)]"

definition documented_qualities :: "(string \<times> int) list" where
  "documented_qualities =
     [(''j7'', 0), (''6'', 0), (''69'', 0), (''-'', 1), (''-7'', 1), (''-6'', 1),
      (''7'', 2), (''79b'', 2), (''7913'', 2), (''m7b5'', 3)]"


section \<open>Properties of the chord parser\<close>

lemma root_lookup_all:
  "list_all (\<lambda>(r, pc). root_lookup r = pc) documented_roots"
  by code_simp

lemma quality_lookup_all:
  "list_all (\<lambda>(q, qi). quality_lookup q = qi) documented_qualities"
  by code_simp

lemma root_lookup_documented:
  "(r, pc) \<in> set documented_roots \<Longrightarrow> root_lookup r = pc"
  using root_lookup_all by (auto simp: list_all_iff)

lemma quality_lookup_documented:
  "(q, qi) \<in> set documented_qualities \<Longrightarrow> quality_lookup q = qi"
  using quality_lookup_all by (auto simp: list_all_iff)

lemma root_lookup_default:
  "r \<notin> set NOTE_NAMES \<Longrightarrow> r \<notin> set NOTE_NAMES_SHARP \<Longrightarrow> root_lookup r = 0"
  by (simp add: root_lookup_def)

lemma index_from_bounds:
  "index_from xs x i = Inr k \<Longrightarrow> i \<le> k \<and> k < i + length xs"
  by (induction xs arbitrary: i) (fastforce split: if_splits)+

lemma root_lookup_range: "0 \<le> root_lookup r \<and> root_lookup r \<le> 11"
proof -
  have a: "py_index NOTE_NAMES r = Inr k \<Longrightarrow> k < 12" for k
    using index_from_bounds [of NOTE_NAMES r 0 k] by (simp add: py_index_def NOTE_NAMES_def)
  have b: "py_index NOTE_NAMES_SHARP r = Inr k \<Longrightarrow> k < 12" for k
    using index_from_bounds [of NOTE_NAMES_SHARP r 0 k]
    by (simp add: py_index_def NOTE_NAMES_SHARP_def)
  show ?thesis
    unfolding root_lookup_def using a b by (auto split: sum.splits)
qed

lemma quality_loop_range:
  "0 \<le> cur \<Longrightarrow> cur \<le> b \<Longrightarrow> \<forall>(idx, key) \<in> set items. int idx \<le> b \<Longrightarrow>
     0 \<le> quality_loop items q cur \<and> quality_loop items q cur \<le> b"
  by (induction items q cur rule: quality_loop.induct) (auto split: option.splits)

lemma quality_lookup_range: "0 \<le> quality_lookup q \<and> quality_lookup q \<le> 3"
  unfolding quality_lookup_def
  by (rule quality_loop_range) (simp_all add: CHORD_QUALITY_MAP_def)

lemma quality_loop_default:
  "\<forall>(key, suffixes) \<in> set CHORD_QUALITY_MAP. q \<notin> set suffixes \<Longrightarrow>
     quality_loop items q cur = cur"
proof (induction items q cur rule: quality_loop.induct)
  case (1 q cur)
  then show ?case by simp
next
  case (2 idx key rest q cur)
  show ?case
  proof (cases "map_of CHORD_QUALITY_MAP key")
    case None
    then show ?thesis by simp
  next
    case (Some suffixes)
    then have "(key, suffixes) \<in> set CHORD_QUALITY_MAP" by (rule map_of_SomeD)
    with 2 Some show ?thesis by auto
  qed
qed

lemma quality_lookup_default:
  "\<forall>(key, suffixes) \<in> set CHORD_QUALITY_MAP. q \<notin> set suffixes \<Longrightarrow> quality_lookup q = 0"
  by (simp add: quality_lookup_def quality_loop_default)

lemma parse_chord_str:
  "is_valid_chord (PyStr s) \<Longrightarrow> split_chord (strip s) = (r, q) \<Longrightarrow>
     parse_chord (PyStr s) =
       Inr (Some \<lparr>root_idx = root_lookup r, quality_idx = quality_lookup q\<rparr>)"
  by (simp add: parse_chord_def)

lemma parse_chord_invalid:
  "\<not> is_valid_chord v \<Longrightarrow> parse_chord v = Inr None"
  by (simp add: parse_chord_def)

lemma parse_chord_examples:
  "parse_chord (PyStr ''Ebj7'') = Inr (Some \<lparr>root_idx = 3, quality_idx = 0\<rparr>)"
  "parse_chord (PyStr ''F-7'') = Inr (Some \<lparr>root_idx = 5, quality_idx = 1\<rparr>)"
  "parse_chord (PyStr ''Bb7913'') = Inr (Some \<lparr>root_idx = 10, quality_idx = 2\<rparr>)"
  "parse_chord (PyStr ''Gm7b5'') = Inr (Some \<lparr>root_idx = 7, quality_idx = 3\<rparr>)"
  by code_simp+

lemma strip_eq:
  assumes "s = a @ m @ b" and "\<forall>c \<in> set a \<union> set b. isspace c"
    and "m \<noteq> [] \<longrightarrow> \<not> isspace (hd m) \<and> \<not> isspace (last m)"
  shows "strip s = m"
proof (cases "m = []")
  case True
  with assms(1,2) have "\<forall>c \<in> set s. isspace c" by auto
  then have e: "dropWhile isspace s = []" by (simp only: dropWhile_eq_Nil_conv)
  show ?thesis unfolding strip_def e using True by simp
next
  case False
  with assms(3) have h: "\<not> isspace (hd m)" and l: "\<not> isspace (last m)" by simp_all
  have mb: "dropWhile isspace (m @ b) = m @ b"
    using False h by (cases m) simp_all
  have "dropWhile isspace (a @ m @ b) = dropWhile isspace (m @ b)"
    by (rule dropWhile_append2) (use assms(2) in simp)
  then have d: "dropWhile isspace s = m @ b"
    by (simp only: assms(1) mb)
  have rm: "dropWhile isspace (rev m) = rev m"
    using False l by (cases "rev m") (simp_all add: last_rev [symmetric] hd_rev)
  have "dropWhile isspace (rev b @ rev m) = dropWhile isspace (rev m)"
    by (rule dropWhile_append2) (use assms(2) in simp)
  then have "dropWhile isspace (rev (m @ b)) = rev m"
    by (simp only: rm rev_append)
  then show ?thesis by (simp only: strip_def d rev_rev_ident)
qed

lemma split_chord_eq:
  assumes "(length r = 2 \<and> (r ! 1 = CHR ''#'' \<or> r ! 1 = CHR ''b''))
       \<or> (length r = 1 \<and> (q = [] \<or> (hd q \<noteq> CHR ''#'' \<and> hd q \<noteq> CHR ''b'')))
       \<or> (r = [] \<and> q = [])"
  shows "split_chord (r @ q) = (r, q)"
proof -
  consider (two) "length r = 2" "r ! 1 = CHR ''#'' \<or> r ! 1 = CHR ''b''"
    | (one) "length r = 1" "q = [] \<or> (hd q \<noteq> CHR ''#'' \<and> hd q \<noteq> CHR ''b'')"
    | (none) "r = []" "q = []"
    using assms by blast
  then show ?thesis
  proof cases
    case two
    then show ?thesis by (auto simp: split_chord_def nth_append)
  next
    case one
    then show ?thesis by (cases q) (auto simp: split_chord_def nth_append)
  next
    case none
    then show ?thesis by (simp add: split_chord_def)
  qed
qed

lemma parse_chord_spaces:
  "parse_chord (PyStr '' F-7'') = Inr (Some \<lparr>root_idx = 5, quality_idx = 1\<rparr>)"
  "parse_chord (PyStr ''F-7 '') = Inr (Some \<lparr>root_idx = 5, quality_idx = 1\<rparr>)"
  "parse_chord (PyStr ''C#7'') = Inr (Some \<lparr>root_idx = 1, quality_idx = 2\<rparr>)"
  "parse_chord (PyStr (CHR 0x09 # ''F#m7b5'' @ [CHR 0x0A])) = Inr (Some \<lparr>root_idx = 6, quality_idx = 3\<rparr>)"
  by code_simp+

text \<open>
  C3, as the code has it. The tokens are those of the symbol without its leading and
  trailing whitespace: a symbol \<open>s\<close>, neither \<open>NC\<close> nor empty, is \<open>a @ m @ b\<close> with
  \<open>a\<close> and \<open>b\<close> whitespace and \<open>m\<close> neither starting nor ending with whitespace; the
  root token \<open>r\<close> is the first character of \<open>m\<close>, with the second when that is \<open>#\<close> or
  \<open>b\<close>, and the quality token \<open>q\<close> is the rest of \<open>m\<close>. The parse is a defined pair
  whose root is the documented pitch class of \<open>r\<close> when \<open>r\<close> is a name of the flat or the
  sharp table, and 0 when it is in neither; whose quality is the documented index of \<open>q\<close>
  when \<open>q\<close> is one of the literal suffixes, and 0 (Major) when \<open>q\<close> is in no suffix list.
  In particular \<open>Ebj7\<close> gives (3, 0), \<open>F-7\<close> gives (5, 1), \<open>Bb7913\<close> gives (10, 2),
  \<open>Gm7b5\<close> gives (7, 3), \<open>C#7\<close> gives (1, 2), and \<open>F-7\<close> after or before a space
  gives (5, 1).
\<close>

theorem parse_chord_documented:
  assumes "s \<noteq> ''NC''" and "s \<noteq> []"
    and "s = a @ m @ b" and "\<forall>c \<in> set a \<union> set b. isspace c"
    and "m \<noteq> [] \<longrightarrow> \<not> isspace (hd m) \<and> \<not> isspace (last m)"
    and "m = r @ q"
    and "(length r = 2 \<and> (r ! 1 = CHR ''#'' \<or> r ! 1 = CHR ''b''))
       \<or> (length r = 1 \<and> (q = [] \<or> (hd q \<noteq> CHR ''#'' \<and> hd q \<noteq> CHR ''b'')))
       \<or> (r = [] \<and> q = [])"
  shows "(\<exists>p. parse_chord (PyStr s) = Inr (Some p)
      \<and> ((r, pc) \<in> set documented_roots \<longrightarrow> root_idx p = pc)
      \<and> ((q, qi) \<in> set documented_qualities \<longrightarrow> quality_idx p = qi)
      \<and> (r \<notin> set NOTE_NAMES \<and> r \<notin> set NOTE_NAMES_SHARP \<longrightarrow> root_idx p = 0)
      \<and> ((\<forall>(key, suffixes) \<in> set CHORD_QUALITY_MAP. q \<notin> set suffixes) \<longrightarrow> quality_idx p = 0))
    \<and> parse_chord (PyStr ''Ebj7'') = Inr (Some \<lparr>root_idx = 3, quality_idx = 0\<rparr>)
    \<and> parse_chord (PyStr ''F-7'') = Inr (Some \<lparr>root_idx = 5, quality_idx = 1\<rparr>)
    \<and> parse_chord (PyStr ''Bb7913'') = Inr (Some \<lparr>root_idx = 10, quality_idx = 2\<rparr>)
    \<and> parse_chord (PyStr ''Gm7b5'') = Inr (Some \<lparr>root_idx = 7, quality_idx = 3\<rparr>)
    \<and> parse_chord (PyStr ''C#7'') = Inr (Some \<lparr>root_idx = 1, quality_idx = 2\<rparr>)
    \<and> parse_chord (PyStr '' F-7'') = Inr (Some \<lparr>root_idx = 5, quality_idx = 1\<rparr>)
    \<and> parse_chord (PyStr ''F-7 '') = Inr (Some \<lparr>root_idx = 5, quality_idx = 1\<rparr>)"
proof -
  have v: "is_valid_chord (PyStr s)"
    using assms(1,2) by (simp add: is_valid_chord_def)
  have "strip s = m"
    using assms(3,4,5) by (rule strip_eq)
  then have sp: "split_chord (strip s) = (r, q)"
    using split_chord_eq [OF assms(7)] assms(6) by simp
  from parse_chord_str [OF v sp] show ?thesis
    by (auto simp: root_lookup_documented quality_lookup_documented root_lookup_default
        quality_lookup_default parse_chord_examples parse_chord_spaces)
qed

theorem parse_chord_documented_witness:
  "'' C#m7b5 '' = '' '' @ ''C#m7b5'' @ '' '' \<and> ''C#m7b5'' = ''C#'' @ ''m7b5''
   \<and> (''C#'', 1) \<in> set documented_roots \<and> (''m7b5'', 3) \<in> set documented_qualities
   \<and> parse_chord (PyStr '' C#m7b5 '') = Inr (Some \<lparr>root_idx = 1, quality_idx = 3\<rparr>)
   \<and> ''H?'' = [] @ ''H?'' @ [] \<and> ''H?'' = ''H'' @ ''?''
   \<and> ''H'' \<notin> set NOTE_NAMES \<and> ''H'' \<notin> set NOTE_NAMES_SHARP
   \<and> ''?'' \<notin> set (concat (map snd CHORD_QUALITY_MAP))
   \<and> parse_chord (PyStr ''H?'') = Inr (Some \<lparr>root_idx = 0, quality_idx = 0\<rparr>)"
proof -
  have sp: "isspace CHR '' ''" by code_simp
  have nsp: "\<not> isspace CHR ''C''" "\<not> isspace CHR ''5''" "\<not> isspace CHR ''H''"
    "\<not> isspace CHR ''?''" by code_simp+
  have r: "(''C#'', 1) \<in> set documented_roots"
    by (simp add: documented_roots_def)
  have q: "(''m7b5'', 3) \<in> set documented_qualities"
    by (simp add: documented_qualities_def)
  have a1: "'' C#m7b5 '' \<noteq> ''NC''" "'' C#m7b5 '' \<noteq> []"
    "'' C#m7b5 '' = '' '' @ ''C#m7b5'' @ '' ''" by simp_all
  have a2: "\<forall>c \<in> set '' '' \<union> set '' ''. isspace c" using sp by simp
  have a3: "''C#m7b5'' \<noteq> [] \<longrightarrow> \<not> isspace (hd ''C#m7b5'') \<and> \<not> isspace (last ''C#m7b5'')"
    using nsp by simp
  have a4: "''C#m7b5'' = ''C#'' @ ''m7b5''" by simp
  have a5: "(length ''C#'' = 2 \<and> (''C#'' ! 1 = CHR ''#'' \<or> ''C#'' ! 1 = CHR ''b''))
       \<or> (length ''C#'' = 1 \<and> (''m7b5'' = [] \<or> (hd ''m7b5'' \<noteq> CHR ''#'' \<and> hd ''m7b5'' \<noteq> CHR ''b'')))
       \<or> (''C#'' = [] \<and> ''m7b5'' = [])" by simp
  from parse_chord_documented [OF a1 a2 a3 a4 a5, of 1 3] r q
  obtain p where "parse_chord (PyStr '' C#m7b5 '') = Inr (Some p)" "root_idx p = 1"
    "quality_idx p = 3" by blast
  then have one: "parse_chord (PyStr '' C#m7b5 '') = Inr (Some \<lparr>root_idx = 1, quality_idx = 3\<rparr>)"
    by simp
  have h: "''H'' \<notin> set NOTE_NAMES" "''H'' \<notin> set NOTE_NAMES_SHARP"
    by (simp_all add: NOTE_NAMES_def NOTE_NAMES_SHARP_def)
  have n: "''?'' \<notin> set (concat (map snd CHORD_QUALITY_MAP))"
    by (simp add: CHORD_QUALITY_MAP_def)
  then have n': "\<forall>(key, suffixes) \<in> set CHORD_QUALITY_MAP. ''?'' \<notin> set suffixes"
    by auto
  have b1: "''H?'' \<noteq> ''NC''" "''H?'' \<noteq> []" "''H?'' = [] @ ''H?'' @ []" by simp_all
  have b2: "\<forall>c \<in> set [] \<union> set []. isspace c" by simp
  have b3: "''H?'' \<noteq> [] \<longrightarrow> \<not> isspace (hd ''H?'') \<and> \<not> isspace (last ''H?'')"
    using nsp by simp
  have b4: "''H?'' = ''H'' @ ''?''" by simp
  have b5: "(length ''H'' = 2 \<and> (''H'' ! 1 = CHR ''#'' \<or> ''H'' ! 1 = CHR ''b''))
       \<or> (length ''H'' = 1 \<and> (''?'' = [] \<or> (hd ''?'' \<noteq> CHR ''#'' \<and> hd ''?'' \<noteq> CHR ''b'')))
       \<or> (''H'' = [] \<and> ''?'' = [])" by simp
  from parse_chord_documented [OF b1 b2 b3 b4 b5] h n'
  obtain p' where "parse_chord (PyStr ''H?'') = Inr (Some p')" "root_idx p' = 0"
    "quality_idx p' = 0" by blast
  then have two: "parse_chord (PyStr ''H?'') = Inr (Some \<lparr>root_idx = 0, quality_idx = 0\<rparr>)"
    by simp
  show ?thesis
    by (intro conjI a1(3) a4 r q one b1(3) b4 h n two)
qed

text \<open>
  C3, as the claim states it, takes the tokens of the symbol itself, and fails on a symbol
  with surrounding whitespace: the first character of \<open>F-7\<close> after a space is the space,
  a name of neither table, and the root is 5 and not 0; the rest of \<open>F-7\<close> before a space
  after the root \<open>F\<close> is in no suffix list, and the quality is 1 and not 0.
\<close>

theorem parse_chord_whitespace:
  "take 1 '' F-7'' = '' '' \<and> '' F-7'' ! 1 \<noteq> CHR ''#'' \<and> '' F-7'' ! 1 \<noteq> CHR ''b''
   \<and> '' '' \<notin> set NOTE_NAMES \<and> '' '' \<notin> set NOTE_NAMES_SHARP
   \<and> parse_chord (PyStr '' F-7'') = Inr (Some \<lparr>root_idx = 5, quality_idx = 1\<rparr>)
   \<and> take 1 ''F-7 '' = ''F'' \<and> ''F-7 '' ! 1 \<noteq> CHR ''#'' \<and> ''F-7 '' ! 1 \<noteq> CHR ''b''
   \<and> drop 1 ''F-7 '' = ''-7 '' \<and> ''-7 '' \<notin> set (concat (map snd CHORD_QUALITY_MAP))
   \<and> parse_chord (PyStr ''F-7 '') = Inr (Some \<lparr>root_idx = 5, quality_idx = 1\<rparr>)"
proof -
  have t: "take 1 '' F-7'' = '' ''" "'' F-7'' ! 1 \<noteq> CHR ''#''" "'' F-7'' ! 1 \<noteq> CHR ''b''"
    "take 1 ''F-7 '' = ''F''" "''F-7 '' ! 1 \<noteq> CHR ''#''" "''F-7 '' ! 1 \<noteq> CHR ''b''"
    "drop 1 ''F-7 '' = ''-7 ''" by simp_all
  have n: "'' '' \<notin> set NOTE_NAMES" "'' '' \<notin> set NOTE_NAMES_SHARP"
    "''-7 '' \<notin> set (concat (map snd CHORD_QUALITY_MAP))" by code_simp+
  show ?thesis
    by (intro conjI t n parse_chord_spaces(1) parse_chord_spaces(2))
qed

text \<open>
  C4, as the code has it. \<open>parse_chord\<close> is declared on strings. On every string it
  returns without raising: absent exactly for \<open>NC\<close> and the empty string, and otherwise a
  pair with root in 0..11 and quality in 0..3.
\<close>

theorem parse_chord_total_on_str:
  "(parse_chord (PyStr s) = Inr None) = (s = ''NC'' \<or> s = [])
   \<and> (s \<noteq> ''NC'' \<and> s \<noteq> [] \<longrightarrow>
        (\<exists>p. parse_chord (PyStr s) = Inr (Some p)
           \<and> 0 \<le> root_idx p \<and> root_idx p \<le> 11 \<and> 0 \<le> quality_idx p \<and> quality_idx p \<le> 3))"
  using root_lookup_range quality_lookup_range
  by (auto simp: parse_chord_def is_valid_chord_def split: prod.splits)

theorem parse_chord_total_on_str_witness:
  "''H#?'' \<noteq> ''NC'' \<and> ''H#?'' \<noteq> []
   \<and> (\<exists>p. parse_chord (PyStr ''H#?'') = Inr (Some p)
           \<and> 0 \<le> root_idx p \<and> root_idx p \<le> 11 \<and> 0 \<le> quality_idx p \<and> quality_idx p \<le> 3)"
  using parse_chord_total_on_str [of "''H#?''"] by simp

text \<open>
  C4, as the claim states it, fails on a value that is not a string: a missing chord
  (\<open>None\<close>) is neither \<open>NC\<close> nor the empty string, passes the validity test, and the call
  of \<open>strip\<close> raises.
\<close>

theorem parse_chord_missing_raises:
  "PyNone \<noteq> PyStr ''NC'' \<and> PyNone \<noteq> PyStr [] \<and> parse_chord PyNone = Inl AttributeError"
  by (simp add: parse_chord_def is_valid_chord_def)

section \<open>Properties of the coercion of strings\<close>

lemma int_of_str_checks:
  "int_of_str '' 12 '' = Inr 12"
  "int_of_str (CHR 0x1C # ''12'') = Inl ValueError"
  "int_of_str ''-1_000'' = Inr (- 1000)"
  "int_of_str ''+ 1'' = Inl ValueError"
  "int_of_str ''1__0'' = Inl ValueError"
  "int_of_str [] = Inl ValueError"
  by code_simp+

section \<open>Exceptions as values\<close>

lemma bind_err_Inr:
  "(bind_err m f = Inr y) = (\<exists>x. m = Inr x \<and> f x = Inr y)"
  by (cases m) (simp_all add: bind_err_def)

lemma bind_err_simps:
  "bind_err (Inr x) f = f x" "bind_err (Inl e) f = Inl e"
  by (simp_all add: bind_err_def)

lemma parse_chord_str_returns: "\<exists>p. parse_chord (PyStr s) = Inr p"
  by (simp add: parse_chord_def split: prod.splits)

lemma map_err_length: "map_err f xs = Inr ys \<Longrightarrow> length ys = length xs"
  by (induction xs arbitrary: ys) (auto simp: bind_err_Inr)

lemma map_err_nth:
  "map_err f xs = Inr ys \<Longrightarrow> i < length xs \<Longrightarrow> f (xs ! i) = Inr (ys ! i)"
proof (induction xs arbitrary: ys i)
  case Nil
  then show ?case by simp
next
  case (Cons x xs)
  then show ?case by (cases i) (auto simp: bind_err_Inr)
qed

lemma map_err_returns:
  "(\<And>x. x \<in> set xs \<Longrightarrow> \<exists>y. f x = Inr y) \<Longrightarrow> \<exists>ys. map_err f xs = Inr ys"
proof (induction xs)
  case Nil
  then show ?case by simp
next
  case (Cons x xs)
  then obtain y ys where "f x = Inr y" "map_err f xs = Inr ys"
    by (metis list.set_intros(1) list.set_intros(2))
  then show ?case by (simp add: bind_err_simps)
qed

section \<open>The small solo, evaluated\<close>

lemma example_solo_output:
  "map_sum id (map (\<lambda>r. (chord r, chord_root r, chord_quality r, pitch r, chord_rel_pitch r,
       pos_grid r, dur_grid r))) (process_single_solo example_solo 7) =
   Inr [(''G7'', Some 7, Some 2, None, None, Some 0, Some 1),
        (''C7'', Some 0, Some 2, Some 64, Some 4, Some 18, Some 6),
        (''C7'', Some 0, Some 2, None, None, Some 24, Some 1)]"
  by code_simp

lemma example_solo_rows:
  "\<exists>r1 r2 r3. process_single_solo example_solo 7 = Inr [r1, r2, r3]
     \<and> chord_root r2 = Some 0 \<and> pitch r2 = Some 64 \<and> chord_rel_pitch r2 = Some 4
     \<and> chord_root r3 = Some 0 \<and> pitch r3 = None \<and> chord_rel_pitch r3 = None"
proof (cases "process_single_solo example_solo 7")
  case (Inl e)
  with example_solo_output show ?thesis by simp
next
  case (Inr out)
  with example_solo_output show ?thesis by (auto simp: map_eq_Cons_conv)
qed

section \<open>Properties of the rhythmic grid\<close>

lemma clip_to_range_bounds:
  "lo \<le> hi \<Longrightarrow> lo \<le> clip_to_range v lo hi \<and> clip_to_range v lo hi \<le> hi"
  by (simp add: clip_to_range_def)

lemma calculate_position_grid_range:
  "calculate_position_grid b t d = Inr p \<Longrightarrow> 0 \<le> p \<and> p \<le> 47"
  using clip_to_range_bounds [of 0 47]
  by (auto simp: calculate_position_grid_def bind_err_Inr Let_def GRID_PER_BAR_def)

lemma calculate_position_grid_example:
  "calculate_position_grid (PyInt 2) (PyInt 3) (PyInt 4) = Inr 18"
  by code_simp

lemma calculate_duration_grid_range:
  "calculate_duration_grid du bd = Inr g \<Longrightarrow> 1 \<le> g \<and> g \<le> 48"
  using clip_to_range_bounds [of 1 48]
  by (auto simp: calculate_duration_grid_def bind_err_Inr GRID_PER_BAR_def split: if_splits)

lemma calculate_duration_grid_default:
  "isna du \<or> isna bd \<or> eq_zero bd \<Longrightarrow> calculate_duration_grid du bd = Inr 1"
  by (auto simp: calculate_duration_grid_def)

text \<open>
  C5 does not hold for every value of the fields: an infinite \<open>tatum\<close> is not missing,
  its conversion to an integer raises \<open>OverflowError\<close>, which \<open>safe_int\<close> does not
  catch, and no position is computed.
\<close>

theorem calculate_position_grid_overflow:
  "calculate_position_grid (PyInt 1) (PyFloat PosInf) (PyInt 1) = Inl OverflowError"
  by (simp add: calculate_position_grid_def safe_int_def isna_def bind_err_def)

text \<open>
  C6 does not hold for every magnitude: with an infinite duration and a beat duration of
  one second the ratio and its product with 12 are infinite, and rounding raises
  \<open>OverflowError\<close> before the clipping.
\<close>

theorem calculate_duration_grid_overflow:
  "calculate_duration_grid (PyFloat PosInf) (PyFloat (Finite 1)) = Inl OverflowError"
  by (simp add: calculate_duration_grid_def safe_divide_def isna_def eq_zero_def bind_err_def
      GRID_PER_BEAT_def)

section \<open>Properties of the harmonic features\<close>

lemma add_harmonic_features_rel:
  assumes "add_harmonic_features df = Inr df'" and "r \<in> set df'"
  shows "chord_rel_pitch r = rel_pitch (pitch r) (chord_root r)"
  using assms by (auto simp: add_harmonic_features_def bind_err_Inr Let_def)

lemma truncate_fields:
  "pitch (feature_row.truncate r) = pitch r"
  "chord_root (feature_row.truncate r) = chord_root r"
  "chord_rel_pitch (feature_row.truncate r) = chord_rel_pitch r"
  by (simp_all add: feature_row.defs)

lemma process_single_solo_rel:
  assumes "process_single_solo sd mid = Inr out" and "r \<in> set out"
  shows "chord_rel_pitch r = rel_pitch (pitch r) (chord_root r)"
proof -
  from assms(1) obtain df4 df5
    where h: "add_harmonic_features (add_melodic_features df4) = Inr df5"
      and o: "out = convert_dtypes (select_final_features df5)"
    by (auto simp: process_single_solo_def bind_err_Inr)
  from assms(2) o obtain r5 where r5: "r5 \<in> set df5" and r: "r = feature_row.truncate r5"
    by (auto simp: convert_dtypes_def select_final_features_def)
  from add_harmonic_features_rel [OF h r5] r show ?thesis
    by (simp add: truncate_fields)
qed

text \<open>
  C7, as the code has it. On every row of the output of a solo, \<open>chord_rel_pitch\<close> is 0
  when \<open>chord_root\<close> is not resolved, is \<open>(pitch - chord_root) mod 12\<close>, an integer in
  0..11, when \<open>chord_root\<close> is resolved and the pitch is present, and is null when
  \<open>chord_root\<close> is resolved and the pitch is missing.
\<close>

theorem chord_rel_pitch_output:
  assumes "process_single_solo sd mid = Inr out" and "r \<in> set out"
  shows "(chord_root r = None \<longrightarrow> chord_rel_pitch r = Some 0)
    \<and> (\<forall>c x. chord_root r = Some c \<and> pitch r = Some x \<longrightarrow>
          chord_rel_pitch r = Some ((x - c) mod 12) \<and> 0 \<le> (x - c) mod 12 \<and> (x - c) mod 12 \<le> 11)
    \<and> (\<forall>c. chord_root r = Some c \<and> pitch r = None \<longrightarrow> chord_rel_pitch r = None)"
  using process_single_solo_rel [OF assms] by (auto simp: rel_pitch_def)

theorem chord_rel_pitch_output_witness:
  "\<exists>out r. process_single_solo example_solo 7 = Inr out \<and> r \<in> set out
     \<and> chord_root r = Some 0 \<and> pitch r = Some 64
     \<and> chord_rel_pitch r = Some ((64 - 0) mod 12) \<and> (64 - 0) mod 12 \<le> (11 :: int)"
proof -
  from example_solo_rows obtain r1 r2 r3
    where o: "process_single_solo example_solo 7 = Inr [r1, r2, r3]"
      and c: "chord_root r2 = Some 0" and p: "pitch r2 = Some 64"
    by blast
  have m: "r2 \<in> set [r1, r2, r3]" by simp
  from chord_rel_pitch_output [OF o m] c p
  have "chord_rel_pitch r2 = Some ((64 - 0) mod 12) \<and> (64 - 0) mod 12 \<le> (11 :: int)"
    by blast
  with o m c p show ?thesis by blast
qed

text \<open>
  C7, as the claim states it, fails on a beat without a note: in the small solo the
  third row has a resolved chord root and no pitch, and its \<open>chord_rel_pitch\<close> is null.
\<close>

theorem chord_rel_pitch_null:
  "map_sum id (map chord_root) (process_single_solo example_solo 7) = Inr [Some 7, Some 0, Some 0]
   \<and> map_sum id (map pitch) (process_single_solo example_solo 7) = Inr [None, Some 64, None]
   \<and> map_sum id (map chord_rel_pitch) (process_single_solo example_solo 7)
        = Inr [None, Some 4, None]"
proof (cases "process_single_solo example_solo 7")
  case (Inl e)
  with example_solo_output show ?thesis by simp
next
  case (Inr out)
  with example_solo_output show ?thesis by (auto simp: map_eq_Cons_conv)
qed

section \<open>Properties of the pickup fill\<close>

lemma first_valid_from_Some:
  "first_valid_from rs i = Some k \<longleftrightarrow>
     (\<exists>j. k = i + j \<and> j < length rs \<and> is_real_chord (chord (rs ! j))
        \<and> (\<forall>l<j. \<not> is_real_chord (chord (rs ! l))))"
proof (induction rs arbitrary: i)
  case Nil
  then show ?case by simp
next
  case (Cons r rs)
  show ?case
  proof (cases "is_real_chord (chord r)")
    case True
    have "(\<exists>j. k = i + j \<and> j < length (r # rs) \<and> is_real_chord (chord ((r # rs) ! j))
        \<and> (\<forall>l<j. \<not> is_real_chord (chord ((r # rs) ! l)))) \<longleftrightarrow> k = i" (is "?R \<longleftrightarrow> _")
    proof
      assume ?R
      then obtain j where j: "k = i + j" "\<forall>l<j. \<not> is_real_chord (chord ((r # rs) ! l))" by blast
      from j(2) True have "j = 0" by (cases j) auto
      with j show "k = i" by simp
    next
      assume "k = i"
      with True show ?R by (intro exI [of _ 0]) simp
    qed
    with True show ?thesis by auto
  next
    case False
    have "(\<exists>j. k = Suc i + j \<and> j < length rs \<and> is_real_chord (chord (rs ! j))
        \<and> (\<forall>l<j. \<not> is_real_chord (chord (rs ! l))))
      \<longleftrightarrow> (\<exists>j. k = i + j \<and> j < length (r # rs) \<and> is_real_chord (chord ((r # rs) ! j))
        \<and> (\<forall>l<j. \<not> is_real_chord (chord ((r # rs) ! l))))"
      (is "?L \<longleftrightarrow> ?R")
    proof
      assume ?L
      then obtain j where j: "k = Suc i + j" "j < length rs"
        "is_real_chord (chord (rs ! j))"
        "\<forall>l<j. \<not> is_real_chord (chord (rs ! l))" by blast
      have "\<forall>l<Suc j. \<not> is_real_chord (chord ((r # rs) ! l))"
      proof (intro allI impI)
        fix l assume "l < Suc j"
        then show "\<not> is_real_chord (chord ((r # rs) ! l))"
          using False j(4) by (cases l) auto
      qed
      with j show ?R by (intro exI [of _ "Suc j"]) simp
    next
      assume ?R
      then obtain j where j: "k = i + j" "j < length (r # rs)"
        "is_real_chord (chord ((r # rs) ! j))"
        "\<forall>l<j. \<not> is_real_chord (chord ((r # rs) ! l))" by blast
      from j(3) False obtain j' where j': "j = Suc j'" by (cases j) auto
      have "\<forall>l<j'. \<not> is_real_chord (chord (rs ! l))"
      proof (intro allI impI)
        fix l assume "l < j'"
        with j(4) j' have "\<not> is_real_chord (chord ((r # rs) ! Suc l))" by blast
        then show "\<not> is_real_chord (chord (rs ! l))" by simp
      qed
      with j j' show ?L by (intro exI [of _ j']) simp
    qed
    with False Cons.IH [of "Suc i"] show ?thesis by simp
  qed
qed

lemma first_valid_from_None:
  "first_valid_from rs i = None \<longleftrightarrow> (\<forall>r \<in> set rs. \<not> is_real_chord (chord r))"
  by (induction rs arbitrary: i) auto

lemma first_valid_idx_Some:
  "first_valid_idx t = Some k \<longleftrightarrow>
     (k < length t \<and> is_real_chord (chord (t ! k)) \<and> (\<forall>l<k. \<not> is_real_chord (chord (t ! l))))"
  by (auto simp: first_valid_idx_def first_valid_from_Some)

lemma first_valid_idx_None:
  "first_valid_idx t = None \<longleftrightarrow> (\<forall>i<length t. \<not> is_real_chord (chord (t ! i)))"
  unfolding first_valid_idx_def first_valid_from_None
  by (metis in_set_conv_nth)

lemma calculate_secondary_dominant_eq:
  "calculate_secondary_dominant ro = Inr (map_option (\<lambda>r. (r + 7) mod 12) ro, 2)"
  by (simp add: calculate_secondary_dominant_def CHORD_QUALITY_MAP_def py_index_def bind_err_def)


lemma fill_loop_Some:
  assumes "0 \<le> d" and "d < 12"
  shows "fill_loop idxs (Some d) q df =
    Inr (fold (\<lambda>idx df. df[idx := (df ! idx)\<lparr>chord_root := Some d, chord_quality := Some q,
                                   chord := NOTE_NAMES ! nat d @ ''7''\<rparr>]) idxs df)"
proof (induction idxs arbitrary: df)
  case Nil
  then show ?case by simp
next
  case (Cons idx rest)
  have g: "py_getitem NOTE_NAMES d = Inr (NOTE_NAMES ! nat d)"
    using assms by (simp add: py_getitem_def NOTE_NAMES_def)
  show ?case
  proof (cases "idx < length df")
    case True
    then show ?thesis by (simp add: g bind_err_simps Cons.IH)
  next
    case False
    then have "length df \<le> idx" by simp
    then show ?thesis by (simp add: g bind_err_simps Cons.IH list_update_beyond)
  qed
qed

lemma fill_loop_None:
  "fill_loop (idx # rest) None q df = Inl TypeError"
  by simp

lemma fold_upt_update_length:
  "length (fold (\<lambda>idx df. df[idx := f (df ! idx)]) idxs df) = length df"
  by (induction idxs arbitrary: df) simp_all

lemma fold_upt_update_nth:
  "k \<le> length df \<Longrightarrow> i < length df \<Longrightarrow>
     (fold (\<lambda>idx df. df[idx := f (df ! idx)]) [0..<k] df) ! i = (if i < k then f (df ! i) else df ! i)"
proof (induction k)
  case 0
  then show ?case by simp
next
  case (Suc k)
  then show ?case
    by (auto simp: fold_upt_update_length nth_list_update less_Suc_eq)
qed

lemma fill_pickup_measures_Some:
  assumes "first_valid_idx t = Some k" and "0 < k" and "chord_root (t ! k) = Some r"
  shows "fill_pickup_measures t =
    Inr (fold (\<lambda>idx df. df[idx := (df ! idx)\<lparr>chord_root := Some ((r + 7) mod 12),
                 chord_quality := Some 2, chord := NOTE_NAMES ! nat ((r + 7) mod 12) @ ''7''\<rparr>])
           [0..<k] t)"
  using assms
  by (simp add: fill_pickup_measures_def calculate_secondary_dominant_eq bind_err_simps
      fill_loop_Some)

lemma fill_pickup_measures_NA:
  assumes "first_valid_idx t = Some k" and "0 < k" and "chord_root (t ! k) = None"
  shows "fill_pickup_measures t = Inl TypeError"
proof -
  from assms(2) have "[0..<k] = 0 # [1..<k]" by (simp add: upt_rec)
  with assms show ?thesis
    by (simp add: fill_pickup_measures_def calculate_secondary_dominant_eq bind_err_simps)
qed

lemma fill_pickup_measures_unchanged:
  "first_valid_idx t = None \<or> first_valid_idx t = Some 0 \<Longrightarrow> fill_pickup_measures t = Inr t"
  by (auto simp: fill_pickup_measures_def)

lemma row_self_update:
  "\<exists>c cr cq. (r :: row) = r\<lparr>chord := c, chord_root := cr, chord_quality := cq\<rparr>"
  by (rule exI [of _ "chord r"], rule exI [of _ "chord_root r"],
      rule exI [of _ "chord_quality r"]) simp

lemma row_pickup_update:
  "\<exists>c cr cq. (r :: row)\<lparr>chord_root := a, chord_quality := b, chord := n\<rparr>
      = r\<lparr>chord := c, chord_root := cr, chord_quality := cq\<rparr>"
  by (rule exI [of _ n], rule exI [of _ a], rule exI [of _ b]) simp

lemma example_aligned_cols:
  "map (\<lambda>r. (chord r, chord_root r, chord_quality r)) example_aligned
     = [([], None, None), (''C7'', Some 0, Some 2), (''C7'', Some 0, Some 2)]"
  by code_simp

lemma example_aligned_rows:
  "length example_aligned = 3
   \<and> chord (example_aligned ! 0) = [] \<and> chord (example_aligned ! 1) = ''C7''
   \<and> chord_root (example_aligned ! 1) = Some 0"
proof -
  from example_aligned_cols obtain r1 r2 r3 where e: "example_aligned = [r1, r2, r3]"
    and c: "chord r1 = []" "chord r2 = ''C7''" "chord_root r2 = Some 0"
    by (auto simp: map_eq_Cons_conv)
  show ?thesis unfolding e using c by simp
qed

text \<open>
  C2. If the first row whose chord is neither \<open>NC\<close> nor empty is at position \<open>k > 0\<close>
  and its \<open>chord_root\<close> is \<open>r\<close>, the pickup fill returns a frame of the same length in
  which every row before \<open>k\<close> has \<open>chord_root = (r + 7) mod 12\<close>, \<open>chord_quality = 2\<close>
  (dominant) and as chord the note name of \<open>(r + 7) mod 12\<close> followed by \<open>7\<close>; a root C
  (0) gives \<open>G7\<close>. If no row has such a chord the frame is returned as it is, so that
  \<open>chord_root\<close> and \<open>chord_quality\<close> stay null wherever they were. The secondary dominant
  of \<open>r\<close> is \<open>((r + 7) mod 12, 2)\<close>.
\<close>

theorem fill_pickup_measures_fills:
  "(\<forall>k r. k < length t \<and> chord (t ! k) \<noteq> ''NC'' \<and> chord (t ! k) \<noteq> []
        \<and> (\<forall>j<k. chord (t ! j) = ''NC'' \<or> chord (t ! j) = [])
        \<and> 0 < k \<and> chord_root (t ! k) = Some r \<longrightarrow>
      (\<exists>t'. fill_pickup_measures t = Inr t' \<and> length t' = length t
         \<and> (\<forall>i<k. chord_root (t' ! i) = Some ((r + 7) mod 12)
               \<and> chord_quality (t' ! i) = Some 2
               \<and> chord (t' ! i) = NOTE_NAMES ! nat ((r + 7) mod 12) @ ''7'')))
   \<and> ((\<forall>i<length t. chord (t ! i) = ''NC'' \<or> chord (t ! i) = []) \<longrightarrow>
        fill_pickup_measures t = Inr t)
   \<and> calculate_secondary_dominant (Some r0) = Inr (Some ((r0 + 7) mod 12), 2)
   \<and> NOTE_NAMES ! nat ((0 + 7) mod 12) @ ''7'' = ''G7''"
proof (intro conjI allI impI)
  fix k r
  assume a: "k < length t \<and> chord (t ! k) \<noteq> ''NC'' \<and> chord (t ! k) \<noteq> []
        \<and> (\<forall>j<k. chord (t ! j) = ''NC'' \<or> chord (t ! j) = [])
        \<and> 0 < k \<and> chord_root (t ! k) = Some r"
  then have fv: "first_valid_idx t = Some k"
    by (auto simp: first_valid_idx_Some is_real_chord_def)
  from a have k: "0 < k" "chord_root (t ! k) = Some r" "k \<le> length t" by auto
  note eq = fill_pickup_measures_Some [OF fv k(1) k(2)]
  show "\<exists>t'. fill_pickup_measures t = Inr t' \<and> length t' = length t
         \<and> (\<forall>i<k. chord_root (t' ! i) = Some ((r + 7) mod 12)
               \<and> chord_quality (t' ! i) = Some 2
               \<and> chord (t' ! i) = NOTE_NAMES ! nat ((r + 7) mod 12) @ ''7'')"
    unfolding eq using k(3)
      fold_upt_update_length [of "\<lambda>row. row\<lparr>chord_root := Some ((r + 7) mod 12),
                 chord_quality := Some 2, chord := NOTE_NAMES ! nat ((r + 7) mod 12) @ ''7''\<rparr>" "[0..<k]" t]
      fold_upt_update_nth [of k t _ "\<lambda>row. row\<lparr>chord_root := Some ((r + 7) mod 12),
                 chord_quality := Some 2, chord := NOTE_NAMES ! nat ((r + 7) mod 12) @ ''7''\<rparr>"]
    by simp
next
  assume "\<forall>i<length t. chord (t ! i) = ''NC'' \<or> chord (t ! i) = []"
  then have "first_valid_idx t = None"
    by (auto simp: first_valid_idx_None is_real_chord_def)
  then show "fill_pickup_measures t = Inr t"
    by (simp add: fill_pickup_measures_unchanged)
next
  show "calculate_secondary_dominant (Some r0) = Inr (Some ((r0 + 7) mod 12), 2)"
    by (simp add: calculate_secondary_dominant_eq)
next
  show "NOTE_NAMES ! nat ((0 + 7) mod 12) @ ''7'' = ''G7''"
    by (simp add: NOTE_NAMES_def)
qed

theorem fill_pickup_measures_fills_witness:
  "1 < length example_aligned \<and> chord (example_aligned ! 1) = ''C7''
   \<and> chord (example_aligned ! 0) = [] \<and> chord_root (example_aligned ! 1) = Some 0
   \<and> (\<exists>t'. fill_pickup_measures example_aligned = Inr t' \<and> length t' = length example_aligned
         \<and> chord_root (t' ! 0) = Some 7 \<and> chord_quality (t' ! 0) = Some 2
         \<and> chord (t' ! 0) = ''G7'')
   \<and> length (take 1 example_aligned) = 1 \<and> chord (take 1 example_aligned ! 0) = []
   \<and> fill_pickup_measures (take 1 example_aligned) = Inr (take 1 example_aligned)"
proof -
  have h: "1 < length example_aligned \<and> chord (example_aligned ! 1) \<noteq> ''NC''
      \<and> chord (example_aligned ! 1) \<noteq> []
      \<and> (\<forall>j<1. chord (example_aligned ! j) = ''NC'' \<or> chord (example_aligned ! j) = [])
      \<and> (0 :: nat) < 1 \<and> chord_root (example_aligned ! 1) = Some 0"
    using example_aligned_rows by simp
  have g: "\<forall>i<length (take 1 example_aligned). chord (take 1 example_aligned ! i) = ''NC''
          \<or> chord (take 1 example_aligned ! i) = []"
    using example_aligned_rows by simp
  from fill_pickup_measures_fills [of example_aligned 0] h
  have a: "\<exists>t'. fill_pickup_measures example_aligned = Inr t' \<and> length t' = length example_aligned
         \<and> (\<forall>i<1. chord_root (t' ! i) = Some ((0 + 7) mod 12) \<and> chord_quality (t' ! i) = Some 2
               \<and> chord (t' ! i) = NOTE_NAMES ! nat ((0 + 7) mod 12) @ ''7'')"
    by blast
  have n: "NOTE_NAMES ! nat ((0 + 7) mod 12) @ ''7'' = ''G7''"
    by (simp add: NOTE_NAMES_def)
  from a n have a': "\<exists>t'. fill_pickup_measures example_aligned = Inr t' \<and> length t' = length example_aligned
         \<and> chord_root (t' ! 0) = Some 7 \<and> chord_quality (t' ! 0) = Some 2
         \<and> chord (t' ! 0) = ''G7''"
    by simp
  from fill_pickup_measures_fills [of "take 1 example_aligned" 0] g
  have b: "fill_pickup_measures (take 1 example_aligned) = Inr (take 1 example_aligned)"
    by blast
  from example_aligned_rows a' b show ?thesis by simp
qed

text \<open>
  C10. When the pickup fill returns, the frame has the same length, every row differs
  from its input row in the fields \<open>chord\<close>, \<open>chord_root\<close> and \<open>chord_quality\<close> at
  most, and every row that is not strictly before the first row whose chord is neither
  \<open>NC\<close> nor empty is returned as it was.
\<close>

theorem fill_pickup_measures_frame:
  assumes "fill_pickup_measures t = Inr t'"
  shows "length t' = length t
    \<and> (\<forall>i<length t. \<exists>c cr cq. t' ! i = (t ! i)\<lparr>chord := c, chord_root := cr, chord_quality := cq\<rparr>)
    \<and> (\<forall>i<length t.
          \<not> (\<exists>k. i < k \<and> k < length t \<and> chord (t ! k) \<noteq> ''NC'' \<and> chord (t ! k) \<noteq> []
                 \<and> (\<forall>j<k. chord (t ! j) = ''NC'' \<or> chord (t ! j) = []))
          \<longrightarrow> t' ! i = t ! i)"
proof -
  consider (same) "t' = t"
    | (filled) k r where "first_valid_idx t = Some k" "0 < k" "chord_root (t ! k) = Some r"
  proof (cases "first_valid_idx t")
    case None
    with assms same show ?thesis by (simp add: fill_pickup_measures_unchanged)
  next
    case (Some k)
    show ?thesis
    proof (cases "0 < k")
      case False
      with Some assms same show ?thesis by (simp add: fill_pickup_measures_unchanged)
    next
      case True
      show ?thesis
      proof (cases "chord_root (t ! k)")
        case None
        with fill_pickup_measures_NA [OF Some True] assms show ?thesis by simp
      next
        case (Some r)
        with \<open>first_valid_idx t = Some k\<close> True filled show ?thesis by blast
      qed
    qed
  qed
  then show ?thesis
  proof cases
    case same
    then show ?thesis by (simp add: row_self_update)
  next
    case filled
    let ?f = "\<lambda>row :: row. row\<lparr>chord_root := Some ((r + 7) mod 12), chord_quality := Some 2,
                chord := NOTE_NAMES ! nat ((r + 7) mod 12) @ ''7''\<rparr>"
    from filled(1) have k: "k < length t" "chord (t ! k) \<noteq> ''NC''" "chord (t ! k) \<noteq> []"
      "\<forall>j<k. chord (t ! j) = ''NC'' \<or> chord (t ! j) = []"
      by (auto simp: first_valid_idx_Some is_real_chord_def)
    from assms fill_pickup_measures_Some [OF filled]
    have t': "t' = fold (\<lambda>idx df. df[idx := ?f (df ! idx)]) [0..<k] t" by simp
    have len: "length t' = length t"
      unfolding t' by (rule fold_upt_update_length)
    have nth: "t' ! i = (if i < k then ?f (t ! i) else t ! i)" if "i < length t" for i
      unfolding t' using k(1) that by (intro fold_upt_update_nth) simp_all
    have a: "\<exists>c cr cq. t' ! i = (t ! i)\<lparr>chord := c, chord_root := cr, chord_quality := cq\<rparr>"
      if "i < length t" for i
      using nth [OF that] by (simp add: row_self_update row_pickup_update)
    have b: "t' ! i = t ! i"
      if "i < length t" and "\<not> (\<exists>k. i < k \<and> k < length t \<and> chord (t ! k) \<noteq> ''NC'' \<and> chord (t ! k) \<noteq> []
                 \<and> (\<forall>j<k. chord (t ! j) = ''NC'' \<or> chord (t ! j) = []))" for i
    proof -
      from that(2) k have "\<not> i < k" by blast
      with nth [OF that(1)] show ?thesis by simp
    qed
    from len a b show ?thesis by blast
  qed
qed

theorem fill_pickup_measures_frame_witness:
  "\<exists>t'. fill_pickup_measures example_aligned = Inr t'
     \<and> length t' = length example_aligned
     \<and> (\<exists>c cr cq. t' ! 0 = (example_aligned ! 0)\<lparr>chord := c, chord_root := cr, chord_quality := cq\<rparr>)
     \<and> t' ! 1 = example_aligned ! 1 \<and> t' ! 2 = example_aligned ! 2"
proof -
  have fv: "first_valid_idx example_aligned = Some 1"
    using example_aligned_rows by (simp add: first_valid_idx_Some is_real_chord_def)
  from fill_pickup_measures_Some [OF fv] example_aligned_rows
  obtain t' where t': "fill_pickup_measures example_aligned = Inr t'" by simp
  note f = fill_pickup_measures_frame [OF t']
  have no: "\<not> (\<exists>k. i < k \<and> k < length example_aligned \<and> chord (example_aligned ! k) \<noteq> ''NC''
                 \<and> chord (example_aligned ! k) \<noteq> []
                 \<and> (\<forall>j<k. chord (example_aligned ! j) = ''NC'' \<or> chord (example_aligned ! j) = []))"
    if "1 \<le> i" for i
  proof
    assume "\<exists>k. i < k \<and> k < length example_aligned \<and> chord (example_aligned ! k) \<noteq> ''NC''
                 \<and> chord (example_aligned ! k) \<noteq> []
                 \<and> (\<forall>j<k. chord (example_aligned ! j) = ''NC'' \<or> chord (example_aligned ! j) = [])"
    then obtain k where k: "i < k"
      "\<forall>j<k. chord (example_aligned ! j) = ''NC'' \<or> chord (example_aligned ! j) = []" by blast
    from k that have "1 < k" by simp
    with k(2) have "chord (example_aligned ! 1) = ''NC'' \<or> chord (example_aligned ! 1) = []" by blast
    with example_aligned_rows show False by simp
  qed
  from f no [of 1] no [of 2] example_aligned_rows
  have "length t' = length example_aligned"
    "\<exists>c cr cq. t' ! 0 = (example_aligned ! 0)\<lparr>chord := c, chord_root := cr, chord_quality := cq\<rparr>"
    "t' ! 1 = example_aligned ! 1" "t' ! 2 = example_aligned ! 2"
    by simp_all
  with t' show ?thesis by blast
qed

section \<open>Properties of the chord alignment\<close>

lemma last_stated_le: "last_stated df (Suc n) \<le> n"
  by (induction n) auto

lemma last_stated_fix: "last_stated df (Suc (last_stated df n)) = last_stated df n"
  by (induction n) auto

lemma last_stated_some:
  "j < n \<Longrightarrow> chord (df ! j) \<noteq> [] \<Longrightarrow>
     last_stated df n < n \<and> j \<le> last_stated df n \<and> chord (df ! last_stated df n) \<noteq> []
       \<and> (\<forall>k. last_stated df n < k \<and> k < n \<longrightarrow> chord (df ! k) = [])"
proof (induction n)
  case 0
  then show ?case by simp
next
  case (Suc n)
  show ?case
  proof (cases "chord (df ! n) \<noteq> []")
    case True
    with Suc.prems show ?thesis by auto
  next
    case False
    with Suc.prems have "j < n" by (cases "j = n") auto
    from Suc.IH [OF this Suc.prems(2)] False show ?thesis
      by (auto simp: less_Suc_eq)
  qed
qed

lemma last_stated_none:
  "(\<forall>j<n. chord (df ! j) = []) \<Longrightarrow> last_stated df n = 0"
  by (induction n) auto

lemma inherit_chord_self: "inherit_chord r r = r"
  by (simp add: inherit_chord_def)

lemma enumerate_snoc: "enumerate 0 (xs @ [x]) = enumerate 0 xs @ [(length xs, x)]"
  by (simp add: enumerate_append_eq)

lemma align_step_eq:
  assumes "idx < length df"
  shows "align_step (idx, r) (l, df) =
    (let l' = (if chord r \<noteq> [] then idx else l)
     in (l', df[idx := inherit_chord (df ! idx) (df ! l')]))"
  using assms
  by (cases "(if chord r \<noteq> [] then idx else l) = idx")
     (simp_all add: align_step_def Let_def inherit_chord_def)


lemma forward_sweep:
  "n \<le> length df0 \<Longrightarrow>
     fold align_step (enumerate 0 (take n df0)) (0, df0) =
       (last_stated df0 n,
        map (\<lambda>i. if i < n then inherit_chord (df0 ! i) (df0 ! last_stated df0 (Suc i))
                  else df0 ! i) [0..<length df0])"
proof (induction n)
  case 0
  show ?case by (simp add: map_nth)
next
  case (Suc n)
  let ?L = "last_stated df0"
  let ?dfn = "map (\<lambda>i. if i < n then inherit_chord (df0 ! i) (df0 ! ?L (Suc i)) else df0 ! i)
                [0..<length df0]"
  from Suc.prems have n: "n < length df0" by simp
  have tk: "take (Suc n) df0 = take n df0 @ [df0 ! n]"
    using n by (rule take_Suc_conv_app_nth)
  have en: "enumerate 0 (take (Suc n) df0) = enumerate 0 (take n df0) @ [(n, df0 ! n)]"
    unfolding tk using n by (simp add: enumerate_snoc)
  have ih: "fold align_step (enumerate 0 (take n df0)) (0, df0) = (?L n, ?dfn)"
    using Suc.IH n by simp
  have l': "(if chord (df0 ! n) \<noteq> [] then n else ?L n) = ?L (Suc n)" by simp
  have le: "?L (Suc n) \<le> n" by (rule last_stated_le)
  have src: "?dfn ! ?L (Suc n) = df0 ! ?L (Suc n)"
  proof (cases "?L (Suc n) < n")
    case True
    with n have "?dfn ! ?L (Suc n)
        = inherit_chord (df0 ! ?L (Suc n)) (df0 ! ?L (Suc (?L (Suc n))))"
      by (simp del: last_stated.simps)
    then show ?thesis by (simp only: last_stated_fix inherit_chord_self)
  next
    case False
    with le have "?L (Suc n) = n" by (simp del: last_stated.simps)
    with n show ?thesis by (simp del: last_stated.simps)
  qed
  have here: "?dfn ! n = df0 ! n" using n by simp
  have step: "align_step (n, df0 ! n) (?L n, ?dfn)
      = (?L (Suc n), ?dfn[n := inherit_chord (df0 ! n) (df0 ! ?L (Suc n))])"
    using n by (simp add: align_step_eq Let_def l' src here del: last_stated.simps)
  have upd: "?dfn[n := inherit_chord (df0 ! n) (df0 ! ?L (Suc n))]
      = map (\<lambda>i. if i < Suc n then inherit_chord (df0 ! i) (df0 ! ?L (Suc i)) else df0 ! i)
          [0..<length df0]"
    using n by (intro nth_equalityI) (auto simp: nth_list_update less_Suc_eq simp del: last_stated.simps)
  have "fold align_step (enumerate 0 (take (Suc n) df0)) (0, df0)
      = align_step (n, df0 ! n) (?L n, ?dfn)"
    by (simp add: en ih del: last_stated.simps)
  then show ?case by (simp only: step upd)
qed

lemma forward_sweep_full:
  "fold align_step (enumerate 0 df0) (0, df0) =
       (last_stated df0 (length df0),
        map (\<lambda>i. inherit_chord (df0 ! i) (df0 ! last_stated df0 (Suc i))) [0..<length df0])"
  using forward_sweep [of "length df0" df0] by (simp cong: map_cong)

lemma lookahead_step_eq:
  assumes "idx < length df"
  shows "lookahead_step (idx, r) (cur, nx, df) =
    (let nx' = (if chord r \<noteq> cur then idx + 1 else nx);
         cur' = (if chord r \<noteq> cur then chord r else cur)
     in (cur', nx', df[idx := set_next (df ! idx) (df ! nx')]))"
  using assms
  by (cases "(if chord r \<noteq> cur then idx + 1 else nx) = idx")
     (simp_all add: lookahead_step_def Let_def set_next_def)

lemma next_state_cur:
  "m \<le> length df \<Longrightarrow> 0 < m \<Longrightarrow> fst (next_state df m) = chord (df ! (length df - m))"
  by (cases m) (auto split: prod.splits)

lemma next_state_range:
  "m \<le> length df \<Longrightarrow> df \<noteq> [] \<Longrightarrow> snd (next_state df m) < length df"
proof (induction m)
  case 0
  then show ?case by simp
next
  case (Suc m)
  show ?case
  proof (cases m)
    case 0
    with Suc.prems show ?thesis by (simp add: last_conv_nth)
  next
    case (Suc k)
    with Suc.prems Suc.IH show ?thesis by (auto split: prod.splits)
  qed
qed


lemma set_next_set_next: "set_next r (set_next s u) = set_next r s"
  by (simp add: set_next_def)

lemma backward_sweep:
  assumes ne: "df \<noteq> []"
  shows "m \<le> length df \<Longrightarrow>
     fold lookahead_step (rev (enumerate (length df - m) (drop (length df - m) df)))
         (chord (last df), length df - 1, df) =
       (fst (next_state df m), snd (next_state df m),
        map (\<lambda>i. if length df - m \<le> i
                  then set_next (df ! i) (df ! snd (next_state df (length df - i)))
                  else df ! i) [0..<length df])"
proof (induction m)
  case 0
  have "map (\<lambda>i. if length df - 0 \<le> i
                  then set_next (df ! i) (df ! snd (next_state df (length df - i)))
                  else df ! i) [0..<length df] = df"
    by (intro nth_equalityI) simp_all
  then show ?case by simp
next
  case (Suc m)
  let ?n = "length df"
  let ?i = "?n - Suc m"
  let ?N = "\<lambda>j. snd (next_state df (?n - j))"
  let ?dfm = "map (\<lambda>j. if ?n - m \<le> j then set_next (df ! j) (df ! ?N j) else df ! j) [0..<?n]"
  from Suc.prems have i: "?i < ?n" and si: "Suc ?i = ?n - m" and m: "m \<le> ?n" by simp_all
  have dr: "drop ?i df = df ! ?i # drop (?n - m) df"
    using i si by (metis Cons_nth_drop_Suc)
  have en: "rev (enumerate ?i (drop ?i df))
      = rev (enumerate (?n - m) (drop (?n - m) df)) @ [(?i, df ! ?i)]"
    unfolding dr using si by simp
  have ih: "fold lookahead_step (rev (enumerate (?n - m) (drop (?n - m) df)))
         (chord (last df), ?n - 1, df) = (fst (next_state df m), snd (next_state df m), ?dfm)"
    using Suc.IH m by simp
  have nx: "(if chord (df ! ?i) \<noteq> fst (next_state df m) then ?i + 1 else snd (next_state df m))
      = snd (next_state df (Suc m))"
    by (simp split: prod.splits)
  have cur: "(if chord (df ! ?i) \<noteq> fst (next_state df m) then chord (df ! ?i)
              else fst (next_state df m)) = fst (next_state df (Suc m))"
    by (simp split: prod.splits)
  have rng: "snd (next_state df (Suc m)) < ?n"
    using Suc.prems ne by (rule next_state_range)
  have here: "?dfm ! ?i = df ! ?i" using i si by simp
  have src: "set_next r (?dfm ! snd (next_state df (Suc m)))
      = set_next r (df ! snd (next_state df (Suc m)))" for r
    using rng by (simp add: set_next_set_next del: next_state.simps)
  have step: "lookahead_step (?i, df ! ?i) (fst (next_state df m), snd (next_state df m), ?dfm)
      = (fst (next_state df (Suc m)), snd (next_state df (Suc m)),
         ?dfm[?i := set_next (df ! ?i) (df ! snd (next_state df (Suc m)))])"
    using i by (simp add: lookahead_step_eq Let_def nx cur here src del: next_state.simps)
  have upd: "?dfm[?i := set_next (df ! ?i) (df ! snd (next_state df (Suc m)))]
      = map (\<lambda>j. if ?i \<le> j then set_next (df ! j) (df ! ?N j) else df ! j) [0..<?n]"
  proof (intro nth_equalityI)
    show "length (?dfm[?i := set_next (df ! ?i) (df ! snd (next_state df (Suc m)))])
        = length (map (\<lambda>j. if ?i \<le> j then set_next (df ! j) (df ! ?N j) else df ! j) [0..<?n])"
      by simp
  next
    fix j
    assume "j < length (?dfm[?i := set_next (df ! ?i) (df ! snd (next_state df (Suc m)))])"
    then have j: "j < ?n" by simp
    have e: "?n - ?i = Suc m" using Suc.prems by simp
    show "?dfm[?i := set_next (df ! ?i) (df ! snd (next_state df (Suc m)))] ! j
        = map (\<lambda>j. if ?i \<le> j then set_next (df ! j) (df ! ?N j) else df ! j) [0..<?n] ! j"
    proof (cases "j = ?i")
      case True
      with i show ?thesis by (simp add: e del: next_state.simps)
    next
      case False
      with j si have "(?n - m \<le> j) = (?i \<le> j)" by auto
      with False j show ?thesis by (simp del: next_state.simps)
    qed
  qed
  have "fold lookahead_step (rev (enumerate ?i (drop ?i df))) (chord (last df), ?n - 1, df)
      = lookahead_step (?i, df ! ?i) (fst (next_state df m), snd (next_state df m), ?dfm)"
    by (simp only: en fold_append o_apply ih fold_simps id_apply)
  then show ?case by (simp only: step upd)
qed

lemma backward_sweep_full:
  assumes "df \<noteq> []"
  shows "snd (snd (fold lookahead_step (rev (enumerate 0 df)) (chord (last df), length df - 1, df)))
    = map (\<lambda>i. set_next (df ! i) (df ! snd (next_state df (length df - i)))) [0..<length df]"
  using backward_sweep [OF assms, of "length df"] by (simp cong: map_cong)

lemma forward_frame_eq:
  "snd (fold align_step (enumerate 0 df) (0, df)) = forward_frame df"
  by (simp add: forward_sweep_full forward_frame_def)

lemma lookahead_frame_eq:
  "df \<noteq> [] \<Longrightarrow>
     snd (snd (fold lookahead_step (rev (enumerate 0 df)) (chord (last df), length df - 1, df)))
       = lookahead_frame df"
  using backward_sweep_full [of df] by (simp add: lookahead_frame_def)

lemma forward_frame_length: "length (forward_frame df) = length df"
  by (simp add: forward_frame_def)

lemma lookahead_frame_length: "length (lookahead_frame df) = length df"
  by (simp add: lookahead_frame_def)

lemma align_chords_eq:
  assumes "map_err (\<lambda>r. parse_chord (PyStr (chord r))) t = Inr ps" and "t \<noteq> []"
  shows "align_chords t
     = Inr (lookahead_frame (forward_frame (map (\<lambda>(r, p). set_parsed r p) (zip t ps))))"
proof -
  let ?d0 = "map (\<lambda>(r, p). set_parsed r p) (zip t ps)"
  have l: "length ps = length t" using assms(1) by (rule map_err_length)
  have ne: "forward_frame ?d0 \<noteq> []"
    using assms(2) l forward_frame_length [of ?d0] by (metis length_0_conv length_map length_zip min.idem)
  show ?thesis
    unfolding align_chords_def assms(1) bind_err_simps Let_def forward_frame_eq
    using ne lookahead_frame_eq [OF ne] by simp
qed

lemma align_chords_empty: "align_chords [] = Inl IndexError"
  by (simp add: align_chords_def bind_err_simps forward_frame_eq forward_frame_def)

lemma parse_column_returns: "\<exists>ps. map_err (\<lambda>r. parse_chord (PyStr (chord r))) t = Inr ps"
  by (rule map_err_returns) (rule parse_chord_str_returns)

lemma last_stated_cong:
  "(\<And>i. i < n \<Longrightarrow> chord (u ! i) = chord (v ! i)) \<Longrightarrow> last_stated u n = last_stated v n"
  by (induction n) auto

lemma set_parsed_cols:
  "chord (set_parsed r p) = chord r"
  "chord_root (set_parsed r p) = map_option root_idx p"
  "chord_quality (set_parsed r p) = map_option quality_idx p"
  by (simp_all add: set_parsed_def)

lemma inherit_chord_cols:
  "chord (inherit_chord r s) = chord s"
  "chord_root (inherit_chord r s) = chord_root s"
  "chord_quality (inherit_chord r s) = chord_quality s"
  by (simp_all add: inherit_chord_def)

lemma set_next_cols:
  "chord (set_next r s) = chord r"
  "chord_root (set_next r s) = chord_root r"
  "chord_quality (set_next r s) = chord_quality r"
  by (simp_all add: set_next_def)

lemma parse_chord_empty: "parse_chord (PyStr []) = Inr None"
  by (simp add: parse_chord_invalid is_valid_chord_def)

lemma align_chords_nth:
  assumes ps: "map_err (\<lambda>r. parse_chord (PyStr (chord r))) t = Inr ps" and i: "i < length t"
  shows "\<exists>t'. align_chords t = Inr t' \<and> length t' = length t
      \<and> chord (t' ! i) = chord (t ! last_stated t (Suc i))
      \<and> chord_root (t' ! i) = map_option root_idx (ps ! last_stated t (Suc i))
      \<and> chord_quality (t' ! i) = map_option quality_idx (ps ! last_stated t (Suc i))"
proof -
  let ?d0 = "map (\<lambda>(r, p). set_parsed r p) (zip t ps)"
  let ?L = "last_stated t (Suc i)"
  have l: "length ps = length t" using ps by (rule map_err_length)
  have d0: "?d0 ! k = set_parsed (t ! k) (ps ! k)" if "k < length t" for k
    using that l by simp
  have "last_stated ?d0 (Suc i) = ?L"
  proof (rule last_stated_cong)
    fix k assume "k < Suc i"
    with i have "k < length t" by simp
    then show "chord (?d0 ! k) = chord (t ! k)" by (simp only: d0 set_parsed_cols)
  qed
  moreover have L: "?L < length t" using last_stated_le [of t i] i by simp
  ultimately have f: "forward_frame ?d0 ! i = inherit_chord (?d0 ! i) (set_parsed (t ! ?L) (ps ! ?L))"
    using i l d0 [OF L] by (simp add: forward_frame_def del: last_stated.simps)
  from i have ne: "t \<noteq> []" by auto
  have e: "align_chords t = Inr (lookahead_frame (forward_frame ?d0))"
    using ps ne by (rule align_chords_eq)
  have n: "lookahead_frame (forward_frame ?d0) ! i
      = set_next (forward_frame ?d0 ! i)
          (forward_frame ?d0 ! snd (next_state (forward_frame ?d0) (length t - i)))"
    using i l by (simp add: lookahead_frame_def forward_frame_length del: next_state.simps)
  have len: "length (lookahead_frame (forward_frame ?d0)) = length t"
    using l by (simp add: lookahead_frame_length forward_frame_length)
  show ?thesis
    unfolding e using len
    by (simp only: n f set_next_cols inherit_chord_cols set_parsed_cols sum.inject simp_thms ex_simps)
qed

lemma last_stated_is:
  assumes "j \<le> i" "chord (df ! j) \<noteq> []" "\<forall>k. j < k \<and> k \<le> i \<longrightarrow> chord (df ! k) = []"
  shows "last_stated df (Suc i) = j"
proof -
  define L where "L = last_stated df (Suc i)"
  from assms(1) have "j < Suc i" by simp
  from last_stated_some [OF this assms(2)]
  have a: "L < Suc i" "j \<le> L" "chord (df ! L) \<noteq> []"
    unfolding L_def by blast+
  have "L = j"
  proof (rule ccontr)
    assume "L \<noteq> j"
    with a(1,2) have "j < L \<and> L \<le> i" by arith
    with assms(3) have "chord (df ! L) = []" by blast
    with a(3) show False by blast
  qed
  then show ?thesis unfolding L_def .
qed

lemma example_flat_chords:
  "map chord example_flat = [[], ''C7'', []]"
  by code_simp

lemma example_flat_rows:
  "length example_flat = 3 \<and> chord (example_flat ! 0) = [] \<and> chord (example_flat ! 1) = ''C7''
     \<and> chord (example_flat ! 2) = []"
proof -
  from example_flat_chords obtain r1 r2 r3 where e: "example_flat = [r1, r2, r3]"
    and c: "chord r1 = []" "chord r2 = ''C7''" "chord r3 = []"
    by (auto simp: map_eq_Cons_conv)
  show ?thesis unfolding e using c by simp
qed

lemma parse_chord_C7: "parse_chord (PyStr ''C7'') = Inr (Some \<lparr>root_idx = 0, quality_idx = 2\<rparr>)"
  by code_simp

text \<open>
  C1. On a frame with a row \<open>i\<close> the alignment returns a frame \<open>t'\<close> of the same length.
  If \<open>j \<le> i\<close> is the last row up to \<open>i\<close> with a non-empty chord text, row \<open>i\<close> of \<open>t'\<close>
  has the chord text of row \<open>j\<close>, and its \<open>chord_root\<close> and \<open>chord_quality\<close> are those of
  the parse of that text (null when the parse is absent). If no row up to \<open>i\<close> has a
  non-empty chord text, row \<open>i\<close> of \<open>t'\<close> has an empty chord text and null \<open>chord_root\<close>
  and \<open>chord_quality\<close>. (On the empty frame the alignment raises \<open>IndexError\<close>, lemma
  \<open>align_chords_empty\<close>.)
\<close>

theorem align_chords_inherits:
  "i < length t \<Longrightarrow>
     \<exists>t'. align_chords t = Inr t' \<and> length t' = length t
       \<and> (\<forall>j. j \<le> i \<and> chord (t ! j) \<noteq> [] \<and> (\<forall>k. j < k \<and> k \<le> i \<longrightarrow> chord (t ! k) = []) \<longrightarrow>
             chord (t' ! i) = chord (t ! j)
             \<and> (\<exists>p. parse_chord (PyStr (chord (t ! j))) = Inr p
                  \<and> chord_root (t' ! i) = map_option root_idx p
                  \<and> chord_quality (t' ! i) = map_option quality_idx p))
       \<and> ((\<forall>j. j \<le> i \<longrightarrow> chord (t ! j) = []) \<longrightarrow>
             chord (t' ! i) = [] \<and> chord_root (t' ! i) = None \<and> chord_quality (t' ! i) = None)"
proof -
  assume i: "i < length t"
  obtain ps where ps: "map_err (\<lambda>r. parse_chord (PyStr (chord r))) t = Inr ps"
    using parse_column_returns by blast
  define L where "L = last_stated t (Suc i)"
  from align_chords_nth [OF ps i] obtain t' where t': "align_chords t = Inr t'"
    "length t' = length t" "chord (t' ! i) = chord (t ! L)"
    "chord_root (t' ! i) = map_option root_idx (ps ! L)"
    "chord_quality (t' ! i) = map_option quality_idx (ps ! L)"
    unfolding L_def by blast
  have "L \<le> i" unfolding L_def by (rule last_stated_le)
  with i have "L < length t" by arith
  from map_err_nth [OF ps this]
  have p: "parse_chord (PyStr (chord (t ! L))) = Inr (ps ! L)" .
  show ?thesis
  proof (intro exI [of _ t'] conjI allI impI)
    show "align_chords t = Inr t'" by (rule t'(1))
    show "length t' = length t" by (rule t'(2))
  next
    fix j
    assume h: "j \<le> i \<and> chord (t ! j) \<noteq> [] \<and> (\<forall>k. j < k \<and> k \<le> i \<longrightarrow> chord (t ! k) = [])"
    then have "last_stated t (Suc i) = j" by (intro last_stated_is) blast+
    then have e: "L = j" unfolding L_def .
    show "chord (t' ! i) = chord (t ! j)" using t'(3) unfolding e .
    show "\<exists>p. parse_chord (PyStr (chord (t ! j))) = Inr p
                  \<and> chord_root (t' ! i) = map_option root_idx p
                  \<and> chord_quality (t' ! i) = map_option quality_idx p"
      using p t'(4,5) unfolding e by blast
  next
    assume h: "\<forall>j. j \<le> i \<longrightarrow> chord (t ! j) = []"
    then have "\<forall>j<Suc i. chord (t ! j) = []" by (simp add: less_Suc_eq_le)
    then have "last_stated t (Suc i) = 0" by (rule last_stated_none)
    then have z: "L = 0" unfolding L_def .
    from h have c: "chord (t ! 0) = []" by blast
    from p have n: "ps ! 0 = None" unfolding z c parse_chord_empty by simp
    show "chord (t' ! i) = []" using t'(3) unfolding z c .
    show "chord_root (t' ! i) = None" using t'(4) unfolding z n by simp
    show "chord_quality (t' ! i) = None" using t'(5) unfolding z n by simp
  qed
qed

theorem align_chords_inherits_witness:
  "(2 :: nat) < length example_flat
   \<and> chord (example_flat ! 1) = ''C7'' \<and> chord (example_flat ! 2) = []
   \<and> (\<exists>t'. align_chords example_flat = Inr t' \<and> length t' = 3
         \<and> chord (t' ! 2) = ''C7'' \<and> chord_root (t' ! 2) = Some 0
         \<and> chord_quality (t' ! 2) = Some 2)
   \<and> chord (example_flat ! 0) = []
   \<and> (\<exists>t'. align_chords example_flat = Inr t'
         \<and> chord (t' ! 0) = [] \<and> chord_root (t' ! 0) = None \<and> chord_quality (t' ! 0) = None)"
proof -
  have r: "length example_flat = 3" "chord (example_flat ! 0) = []"
    "chord (example_flat ! 1) = ''C7''" "chord (example_flat ! 2) = []"
    using example_flat_rows by blast+
  have two: "(2 :: nat) < length example_flat" unfolding r(1) by simp
  have h: "(1 :: nat) \<le> 2 \<and> chord (example_flat ! 1) \<noteq> []
      \<and> (\<forall>k. 1 < k \<and> k \<le> 2 \<longrightarrow> chord (example_flat ! k) = [])"
  proof (intro conjI allI impI)
    show "(1 :: nat) \<le> 2" by simp
    show "chord (example_flat ! 1) \<noteq> []" unfolding r(3) by simp
  next
    fix k :: nat assume "1 < k \<and> k \<le> 2"
    then have "k = 2" by arith
    then show "chord (example_flat ! k) = []" using r(4) by blast
  qed
  from align_chords_inherits [OF two] h
  obtain t' where a: "align_chords example_flat = Inr t'" "length t' = length example_flat"
    "chord (t' ! 2) = chord (example_flat ! 1)"
    "\<exists>p. parse_chord (PyStr (chord (example_flat ! 1))) = Inr p
        \<and> chord_root (t' ! 2) = map_option root_idx p
        \<and> chord_quality (t' ! 2) = map_option quality_idx p"
    by blast
  from a(4) have "chord_root (t' ! 2) = Some 0 \<and> chord_quality (t' ! 2) = Some 2"
    unfolding r(3) parse_chord_C7 by auto
  with a(1,2,3) have first: "\<exists>t'. align_chords example_flat = Inr t' \<and> length t' = 3
         \<and> chord (t' ! 2) = ''C7'' \<and> chord_root (t' ! 2) = Some 0
         \<and> chord_quality (t' ! 2) = Some 2"
    unfolding r(1) r(3) by blast
  have zero: "(0 :: nat) < length example_flat" unfolding r(1) by simp
  have g: "\<forall>j. j \<le> (0 :: nat) \<longrightarrow> chord (example_flat ! j) = []" using r(2) by simp
  from align_chords_inherits [OF zero] g
  have second: "\<exists>t'. align_chords example_flat = Inr t'
         \<and> chord (t' ! 0) = [] \<and> chord_root (t' ! 0) = None \<and> chord_quality (t' ! 0) = None"
    by blast
  show ?thesis
    by (intro conjI two r(2) r(3) r(4) first second)
qed

lemma align_chords_Inr:
  assumes "align_chords t = Inr t'"
  shows "t \<noteq> []" and "length t' = length t"
proof -
  show ne: "t \<noteq> []" using assms align_chords_empty by auto
  obtain ps where ps: "map_err (\<lambda>r. parse_chord (PyStr (chord r))) t = Inr ps"
    using parse_column_returns by blast
  have "length ps = length t" using ps by (rule map_err_length)
  then show "length t' = length t"
    using assms unfolding align_chords_eq [OF ps ne]
    by (auto simp: lookahead_frame_length forward_frame_length)
qed

lemma aligned_cols:
  assumes a: "align_chords t = Inr t'" and i: "i < length t"
  shows "chord (t' ! i) = chord (t ! last_stated t (Suc i))"
    and "\<exists>p. parse_chord (PyStr (chord (t' ! i))) = Inr p
          \<and> chord_root (t' ! i) = map_option root_idx p
          \<and> chord_quality (t' ! i) = map_option quality_idx p"
proof -
  obtain ps where ps: "map_err (\<lambda>r. parse_chord (PyStr (chord r))) t = Inr ps"
    using parse_column_returns by blast
  define L where "L = last_stated t (Suc i)"
  from align_chords_nth [OF ps i] a have c: "chord (t' ! i) = chord (t ! L)"
    "chord_root (t' ! i) = map_option root_idx (ps ! L)"
    "chord_quality (t' ! i) = map_option quality_idx (ps ! L)"
    unfolding L_def by auto
  have "L \<le> i" unfolding L_def by (rule last_stated_le)
  with i have "L < length t" by arith
  from map_err_nth [OF ps this]
  have p: "parse_chord (PyStr (chord (t ! L))) = Inr (ps ! L)" .
  show "chord (t' ! i) = chord (t ! last_stated t (Suc i))" using c(1) unfolding L_def .
  show "\<exists>p. parse_chord (PyStr (chord (t' ! i))) = Inr p
          \<and> chord_root (t' ! i) = map_option root_idx p
          \<and> chord_quality (t' ! i) = map_option quality_idx p"
    unfolding c using p by blast
qed

lemma set_parsed_self:
  "chord_root r = map_option root_idx p \<Longrightarrow> chord_quality r = map_option quality_idx p \<Longrightarrow>
     set_parsed r p = r"
  by (simp add: set_parsed_def)

lemma reparse_aligned:
  assumes a: "align_chords t = Inr t'"
    and ps: "map_err (\<lambda>r. parse_chord (PyStr (chord r))) t' = Inr ps"
  shows "map (\<lambda>(r, p). set_parsed r p) (zip t' ps) = t'"
proof (intro nth_equalityI)
  have l: "length ps = length t'" using ps by (rule map_err_length)
  then show "length (map (\<lambda>(r, p). set_parsed r p) (zip t' ps)) = length t'" by simp
  fix i assume "i < length (map (\<lambda>(r, p). set_parsed r p) (zip t' ps))"
  with l have i: "i < length t'" by simp
  then have it: "i < length t" using align_chords_Inr(2) [OF a] by simp
  from aligned_cols(2) [OF a it] obtain p where p: "parse_chord (PyStr (chord (t' ! i))) = Inr p"
    "chord_root (t' ! i) = map_option root_idx p"
    "chord_quality (t' ! i) = map_option quality_idx p" by blast
  from map_err_nth [OF ps i] p(1) have "ps ! i = p" by simp
  with p(2,3) have "set_parsed (t' ! i) (ps ! i) = t' ! i" by (simp add: set_parsed_self)
  with i l show "map (\<lambda>(r, p). set_parsed r p) (zip t' ps) ! i = t' ! i" by simp
qed

lemma aligned_empty_prefix:
  assumes a: "align_chords t = Inr t'" and i: "i < length t" and e: "chord (t' ! i) = []"
    and k: "k \<le> i"
  shows "chord (t' ! k) = []"
proof -
  have none: "chord (t ! j) = []" if "j \<le> i" for j
  proof (rule ccontr)
    assume n: "chord (t ! j) \<noteq> []"
    from that have "j < Suc i" by simp
    from last_stated_some [OF this n]
    have "chord (t ! last_stated t (Suc i)) \<noteq> []" by blast
    with e aligned_cols(1) [OF a i] show False by simp
  qed
  from k i have kt: "k < length t" by simp
  have "\<forall>j<Suc k. chord (t ! j) = []" using none k by simp
  then have "last_stated t (Suc k) = 0" by (rule last_stated_none)
  with aligned_cols(1) [OF a kt] have "chord (t' ! k) = chord (t ! 0)" by simp
  with none [of 0] show ?thesis by simp
qed

lemma aligned_last_stated:
  assumes a: "align_chords t = Inr t'" and i: "i < length t"
  shows "chord (t' ! last_stated t' (Suc i)) = chord (t' ! i)"
proof (cases "chord (t' ! i) = []")
  case False
  then show ?thesis by simp
next
  case True
  have "\<forall>j<i. chord (t' ! j) = []"
    using aligned_empty_prefix [OF a i True] by simp
  then have "last_stated t' i = 0" by (rule last_stated_none)
  with True aligned_empty_prefix [OF a i True, of 0] show ?thesis by simp
qed

lemma inherit_chord_same:
  "chord s = chord r \<Longrightarrow> chord_root s = chord_root r \<Longrightarrow> chord_quality s = chord_quality r \<Longrightarrow>
     inherit_chord r s = r"
  by (simp add: inherit_chord_def)

lemma forward_frame_aligned:
  assumes a: "align_chords t = Inr t'"
  shows "forward_frame t' = t'"
proof (intro nth_equalityI)
  show "length (forward_frame t') = length t'" by (rule forward_frame_length)
  fix i assume "i < length (forward_frame t')"
  then have i': "i < length t'" by (simp only: forward_frame_length)
  then have i: "i < length t" using align_chords_Inr(2) [OF a] by simp
  define L where "L = last_stated t' (Suc i)"
  have "L \<le> i" unfolding L_def by (rule last_stated_le)
  with i have Lt: "L < length t" by arith
  have c: "chord (t' ! L) = chord (t' ! i)"
    unfolding L_def using a i by (rule aligned_last_stated)
  from aligned_cols(2) [OF a i] aligned_cols(2) [OF a Lt] c
  have "chord_root (t' ! L) = chord_root (t' ! i)" "chord_quality (t' ! L) = chord_quality (t' ! i)"
    by auto
  with c have "inherit_chord (t' ! i) (t' ! L) = t' ! i" by (rule inherit_chord_same)
  then show "forward_frame t' ! i = t' ! i"
    using i' unfolding L_def by (simp add: forward_frame_def del: last_stated.simps)
qed

lemma next_state_cong:
  assumes "length u = length v" and "u \<noteq> []"
    and "\<And>i. i < length u \<Longrightarrow> chord (u ! i) = chord (v ! i)"
  shows "next_state u m = next_state v m"
proof (induction m)
  case 0
  from assms(1,2) have "v \<noteq> []" by auto
  with assms show ?case by (simp add: last_conv_nth)
next
  case (Suc m)
  from assms(2) have "length u - Suc m < length u" by (cases u) simp_all
  then have "chord (u ! (length u - Suc m)) = chord (v ! (length u - Suc m))" by (rule assms(3))
  with Suc assms(1) show ?case by (auto split: prod.splits)
qed

lemma lookahead_frame_nth:
  "k < length u \<Longrightarrow>
     lookahead_frame u ! k = set_next (u ! k) (u ! snd (next_state u (length u - k)))"
  by (simp add: lookahead_frame_def del: next_state.simps)

lemma lookahead_frame_idem:
  assumes ne: "u \<noteq> []"
  shows "lookahead_frame (lookahead_frame u) = lookahead_frame u"
proof (intro nth_equalityI)
  let ?lu = "lookahead_frame u"
  have l: "length ?lu = length u" by (rule lookahead_frame_length)
  then show "length (lookahead_frame ?lu) = length ?lu" by (simp only: lookahead_frame_length)
  have lne: "?lu \<noteq> []" using l ne by auto
  note row = lookahead_frame_nth [of _ u]
  have ns: "next_state ?lu m = next_state u m" for m
  proof (rule next_state_cong [OF l lne])
    fix i assume "i < length ?lu"
    with l have "i < length u" by simp
    then show "chord (?lu ! i) = chord (u ! i)" by (simp only: row set_next_cols)
  qed
  fix i assume "i < length (lookahead_frame ?lu)"
  then have i: "i < length u" by (simp only: lookahead_frame_length)
  define N where "N = snd (next_state u (length u - i))"
  have "length u - i \<le> length u" by simp
  then have N: "N < length u" unfolding N_def using ne by (rule next_state_range)
  have "lookahead_frame ?lu ! i = set_next (?lu ! i) (?lu ! N)"
    using lookahead_frame_nth [of i ?lu] i l unfolding N_def ns by simp
  also have "\<dots> = set_next (set_next (u ! i) (u ! N)) (set_next (u ! N) (u ! snd (next_state u (length u - N))))"
    using row [OF i] row [OF N] unfolding N_def by simp
  also have "\<dots> = set_next (u ! i) (u ! N)" by (simp add: set_next_def)
  also have "\<dots> = ?lu ! i" using row [OF i] unfolding N_def by simp
  finally show "lookahead_frame ?lu ! i = ?lu ! i" .
qed

lemma align_chords_returns: "t \<noteq> [] \<Longrightarrow> \<exists>t'. align_chords t = Inr t'"
  using parse_column_returns [of t] align_chords_eq [of t] by blast

lemma align_chords_aligned:
  assumes a: "align_chords t = Inr t'"
  shows "align_chords t' = Inr t'"
proof -
  have ne: "t \<noteq> []" and l: "length t' = length t" using align_chords_Inr [OF a] by blast+
  then have ne': "t' \<noteq> []" by auto
  obtain ps where ps: "map_err (\<lambda>r. parse_chord (PyStr (chord r))) t = Inr ps"
    using parse_column_returns by blast
  obtain ps' where ps': "map_err (\<lambda>r. parse_chord (PyStr (chord r))) t' = Inr ps'"
    using parse_column_returns by blast
  define u where "u = forward_frame (map (\<lambda>(r, p). set_parsed r p) (zip t ps))"
  have t': "t' = lookahead_frame u"
    using a unfolding align_chords_eq [OF ps ne] u_def by simp
  have "length u = length t'" unfolding t' by (simp only: lookahead_frame_length)
  with ne' have une: "u \<noteq> []" by auto
  have "align_chords t' = Inr (lookahead_frame (forward_frame t'))"
    unfolding align_chords_eq [OF ps' ne'] reparse_aligned [OF a ps'] ..
  also have "\<dots> = Inr (lookahead_frame t')"
    unfolding forward_frame_aligned [OF a] ..
  also have "\<dots> = Inr t'"
    unfolding t' lookahead_frame_idem [OF une] ..
  finally show ?thesis .
qed

text \<open>
  C9. The alignment returns on every frame that has a row, and whenever it returns a
  frame \<open>t'\<close>, the alignment of \<open>t'\<close> returns \<open>t'\<close> itself: every column of every row is
  unchanged, the three chord columns and the three lookahead columns among them. (On the
  empty frame the alignment raises \<open>IndexError\<close> and there is no output to align again.)
\<close>

theorem align_chords_idempotent:
  "(t \<noteq> [] \<longrightarrow> (\<exists>t'. align_chords t = Inr t'))
   \<and> (\<forall>t'. align_chords t = Inr t' \<longrightarrow> align_chords t' = Inr t')"
  using align_chords_returns [of t] align_chords_aligned [of t] by blast

theorem align_chords_idempotent_witness:
  "example_flat \<noteq> [] \<and> align_chords example_flat = Inr example_aligned
   \<and> align_chords example_aligned = Inr example_aligned
   \<and> length example_aligned = 3 \<and> chord (example_aligned ! 1) = ''C7''"
proof -
  have ne: "example_flat \<noteq> []" using example_flat_rows by auto
  with align_chords_idempotent [of example_flat]
  obtain t' where t': "align_chords example_flat = Inr t'" by blast
  then have e: "example_aligned = t'" by (simp add: example_aligned_def)
  from align_chords_idempotent [of example_flat] t'
  have "align_chords t' = Inr t'" by blast
  with ne t' e example_aligned_rows show ?thesis by simp
qed

end
